theory Spec2Isabelle
  imports Main "HOL-Library.AList"
begin

section \<open>JavaScript values and built-ins used by ZmqService\<close>

text \<open>
  Text is a list of characters; a character stands for a UTF-16 code unit below 256
  (the upstream feed is ASCII). \<open>undefined\<close> is \<open>None\<close>: an array read past
  the end yields it, as \<open>messageParams[12]\<close> does on a short message.
\<close>

datatype error = TypeError | Error string

text \<open>
  A Number produced by \<open>parseInt\<close>: \<open>NaN\<close>, or \<open>Num n\<close> for the Number value of the
  mathematical integer \<open>n\<close> (exact up to \<open>2^53\<close> in magnitude, the nearest double
  beyond; the sign of zero is not tracked).
\<close>

datatype js_number = NaN | Num int

text \<open>\<open>String.prototype.split(sep)\<close> for a one-character separator.\<close>

fun split :: "char \<Rightarrow> string \<Rightarrow> string list" where
  "split sep [] = [[]]"
| "split sep (c # cs) =
     (if c = sep then [] # split sep cs
      else (case split sep cs of
              [] \<Rightarrow> [[c]]
            | w # ws \<Rightarrow> (c # w) # ws))"

text \<open>\<open>xs[i]\<close> on an array: \<open>undefined\<close> out of range.\<close>

definition index :: "'a list \<Rightarrow> nat \<Rightarrow> 'a option" where
  "index xs i = (if i < length xs then Some (xs ! i) else None)"

text \<open>\<open>ToString\<close> of a string or \<open>undefined\<close>.\<close>

definition toString :: "string option \<Rightarrow> string" where
  "toString v = (case v of None \<Rightarrow> ''undefined'' | Some s \<Rightarrow> s)"

text \<open>\<open>s.startsWith(p)\<close>.\<close>

definition startsWith :: "string \<Rightarrow> string \<Rightarrow> bool" where
  "startsWith s p = (take (length p) s = p)"

text \<open>
  \<open>parseInt(s, 10)\<close>: leading white space is skipped, one sign is read, then the
  longest run of decimal digits; no digit gives \<open>NaN\<close>. The white space characters
  below 256 are TAB, LF, VT, FF, CR, SP and NBSP.
\<close>

definition isWhiteSpace :: "char \<Rightarrow> bool" where
  "isWhiteSpace c = ((of_char c :: nat) \<in> {9, 10, 11, 12, 13, 32, 160})"

definition isDigit :: "char \<Rightarrow> bool" where
  "isDigit c = (48 \<le> (of_char c :: nat) \<and> (of_char c :: nat) \<le> 57)"

definition digitValue :: "char \<Rightarrow> nat" where
  "digitValue c = of_char c - 48"

definition decimalValue :: "string \<Rightarrow> nat" where
  "decimalValue ds = foldl (\<lambda>a c. 10 * a + digitValue c) 0 ds"

definition parseInt :: "string \<Rightarrow> js_number" where
  "parseInt s =
     (let S = dropWhile isWhiteSpace s;
          sign = (case S of [] \<Rightarrow> 1 | c # _ \<Rightarrow> if c = CHR ''-'' then - 1 else (1::int));
          S' = (case S of [] \<Rightarrow> [] | c # r \<Rightarrow> if c = CHR ''+'' \<or> c = CHR ''-'' then r else S);
          Z = takeWhile isDigit S'
      in if Z = [] then NaN else Num (sign * int (decimalValue Z)))"

subsection \<open>Plain objects used as dictionaries\<close>

text \<open>
  \<open>this._subscriptions\<close> is \<open>{}\<close>: its own properties are an association list in
  creation order, and a read of a name it does not own falls through to
  \<open>Object.prototype\<close>, whose members are truthy and are not arrays.
\<close>

definition objectPrototypeNames :: "string list" where
  "objectPrototypeNames =
     [''constructor'', ''__defineGetter__'', ''__defineSetter__'', ''hasOwnProperty'',
      ''__lookupGetter__'', ''__lookupSetter__'', ''isPrototypeOf'',
      ''propertyIsEnumerable'', ''toString'', ''valueOf'', ''__proto__'',
      ''toLocaleString'']"

datatype 'v property = Undefined | Inherited | Own 'v

definition getProp :: "(string \<times> 'v) list \<Rightarrow> string \<Rightarrow> 'v property" where
  "getProp obj k =
     (case map_of obj k of
        Some v \<Rightarrow> Own v
      | None \<Rightarrow> if k \<in> set objectPrototypeNames then Inherited else Undefined)"

text \<open>
  \<open>Object.keys(obj)\<close>: the array-index names (canonical decimal numerals below
  \<open>2^32 - 1\<close>) in ascending numeric order first, then the other names in creation order.
\<close>

definition isArrayIndex :: "string \<Rightarrow> bool" where
  "isArrayIndex k =
     (k \<noteq> [] \<and> list_all isDigit k \<and> (if hd k = CHR ''0'' then k = ''0'' else True)
      \<and> decimalValue k < 2 ^ 32 - 1)"

definition objectKeys :: "(string \<times> 'v) list \<Rightarrow> string list" where
  "objectKeys obj =
     (let ks = map fst obj
      in sort_key decimalValue (filter isArrayIndex ks) @ filter (\<lambda>k. \<not> isArrayIndex k) ks)"

section \<open>The zeromq library, as seen from ZmqService\<close>

text \<open>
  The calls on the zeromq library that returned, oldest first. A socket object is
  named by a serial number. \<open>openSockets\<close> replays the calls and lists the sockets
  created and not yet closed.
\<close>

datatype zmq_call =
    ZmqSocket nat
  | SockConnect nat string
  | SockOn nat
  | SockSubscribe nat string
  | SockUnsubscribe nat string
  | SockClose nat

fun isZmqSocket :: "zmq_call \<Rightarrow> bool" where
  "isZmqSocket (ZmqSocket h) = True"
| "isZmqSocket c = False"

definition newHandle :: "zmq_call list \<Rightarrow> nat" where
  "newHandle calls = length (filter isZmqSocket calls)"

fun replay :: "nat list \<Rightarrow> zmq_call \<Rightarrow> nat list" where
  "replay hs (ZmqSocket h) = hs @ [h]"
| "replay hs (SockClose h) = removeAll h hs"
| "replay hs c = hs"

definition openSockets :: "zmq_call list \<Rightarrow> nat list" where
  "openSockets calls = foldl replay [] calls"

text \<open>
  What the library does when \<open>connect()\<close> opens a socket: both calls return, or
  \<open>zmq.socket('sub')\<close> throws, or \<open>socket.connect(endpoint)\<close> throws. The text
  is the rendering \<open>${err}\<close> of the exception. The other socket calls
  (\<open>on\<close>, \<open>subscribe\<close>, \<open>unsubscribe\<close>, \<open>close\<close>) are taken to return.
\<close>

datatype open_outcome = OpenOk | SocketThrows string | ConnectThrows string

section \<open>ZmqService\<close>

record cfg =
  endpoint :: string
  prefix :: string

record 'cb subscription =
  sub_id :: string
  callback :: 'cb

text \<open>
  The fields of the class, and the calls made on the zeromq library so far.
  A callback is an opaque value of type \<open>'cb\<close>.
\<close>

record 'cb zmq_service =
  config :: cfg
  socket :: "nat option"
  subscriptions :: "(string \<times> 'cb subscription list) list"
  zmq :: "zmq_call list"

definition new_ZmqService :: "cfg \<Rightarrow> 'cb zmq_service" where
  "new_ZmqService c = \<lparr>config = c, socket = None, subscriptions = [], zmq = []\<rparr>"

subsection \<open>connect and disconnect\<close>

definition unableToConnect :: "string \<Rightarrow> error" where
  "unableToConnect err = Error (''Unable to connect to ZMQ.'' @ [CHR 0x0A] @ err)"

definition connect :: "open_outcome \<Rightarrow> 'cb zmq_service \<Rightarrow> (error + unit) \<times> 'cb zmq_service" where
  "connect oc s =
     (case socket s of
        Some h \<Rightarrow> (Inr (), s)
      | None \<Rightarrow>
          (let h = newHandle (zmq s) in
           case oc of
             SocketThrows err \<Rightarrow> (Inl (unableToConnect err), s)
           | ConnectThrows err \<Rightarrow>
               (Inl (unableToConnect err),
                s\<lparr>socket := Some h, zmq := zmq s @ [ZmqSocket h]\<rparr>)
           | OpenOk \<Rightarrow>
               (Inr (),
                s\<lparr>socket := Some h,
                  zmq := zmq s @ [ZmqSocket h, SockConnect h (endpoint (config s)), SockOn h]
                           @ map (SockSubscribe h) (objectKeys (subscriptions s))\<rparr>)))"

definition disconnect :: "'cb zmq_service \<Rightarrow> 'cb zmq_service" where
  "disconnect s =
     (case socket s of
        Some h \<Rightarrow> s\<lparr>socket := None, zmq := zmq s @ [SockClose h]\<rparr>
      | None \<Rightarrow> s)"

subsection \<open>subscribe\<close>

text \<open>
  \<open>uuid\<close> is the value the call \<open>uuid()\<close> returns, \<open>oc\<close> what the library does
  if a socket is opened. The state is returned with the result: an exception leaves
  the mutations made before it.
\<close>

definition internalAddEventCallback ::
  "string \<Rightarrow> 'cb \<Rightarrow> string \<Rightarrow> open_outcome \<Rightarrow> 'cb zmq_service \<Rightarrow> (error + string) \<times> 'cb zmq_service" where
  "internalAddEventCallback event cb uuid oc s =
     (let s1 = (case getProp (subscriptions s) event of
                  Undefined \<Rightarrow>
                    s\<lparr>subscriptions := AList.update event [] (subscriptions s),
                      zmq := (case socket s of
                                Some h \<Rightarrow> zmq s @ [SockSubscribe h event]
                              | None \<Rightarrow> zmq s)\<rparr>
                | _ \<Rightarrow> s)
      in case getProp (subscriptions s1) event of
           Own subs \<Rightarrow>
             (let s2 = s1\<lparr>subscriptions :=
                          AList.update event (subs @ [\<lparr>sub_id = uuid, callback = cb\<rparr>])
                            (subscriptions s1)\<rparr>
              in case connect oc s2 of
                   (Inl e, s3) \<Rightarrow> (Inl e, s3)
                 | (Inr _, s3) \<Rightarrow> (Inr uuid, s3))
         | _ \<Rightarrow> (Inl TypeError, s1))"

definition subscribe ::
  "string \<Rightarrow> 'cb \<Rightarrow> string \<Rightarrow> open_outcome \<Rightarrow> 'cb zmq_service \<Rightarrow> (error + string) \<times> 'cb zmq_service" where
  "subscribe event cb uuid oc s = internalAddEventCallback event cb uuid oc s"

definition subscribeEvent ::
  "string \<Rightarrow> 'cb \<Rightarrow> string \<Rightarrow> open_outcome \<Rightarrow> 'cb zmq_service \<Rightarrow> (error + string) \<times> 'cb zmq_service" where
  "subscribeEvent event cb uuid oc s = internalAddEventCallback event cb uuid oc s"

subsection \<open>unsubscribe\<close>

text \<open>The inner loop: the first index \<open>j\<close> whose entry has the id.\<close>

fun findId :: "string \<Rightarrow> 'cb subscription list \<Rightarrow> nat option" where
  "findId sid [] = None"
| "findId sid (x # xs) =
     (if sub_id x = sid then Some 0 else map_option Suc (findId sid xs))"

text \<open>\<open>xs.splice(j, 1)\<close>.\<close>

definition splice1 :: "nat \<Rightarrow> 'a list \<Rightarrow> 'a list" where
  "splice1 j xs = take j xs @ drop (Suc j) xs"

text \<open>
  The body of the match: the entry is cut out; an emptied list has its topic
  dropped on the socket and its key deleted, and an emptied registry disconnects.
  \<open>this._socket.unsubscribe\<close> on an undefined socket is a TypeError.
\<close>

definition removeAt ::
  "string \<Rightarrow> nat \<Rightarrow> 'cb subscription list \<Rightarrow> 'cb zmq_service \<Rightarrow> (error + unit) \<times> 'cb zmq_service" where
  "removeAt eventKey j subs s =
     (let subs' = splice1 j subs;
          s1 = s\<lparr>subscriptions := AList.update eventKey subs' (subscriptions s)\<rparr>
      in if length subs' = 0 then
           (case socket s1 of
              None \<Rightarrow> (Inl TypeError, s1)
            | Some h \<Rightarrow>
                (let s2 = s1\<lparr>zmq := zmq s1 @ [SockUnsubscribe h eventKey],
                            subscriptions := AList.delete eventKey (subscriptions s1)\<rparr>
                 in if length (objectKeys (subscriptions s2)) = 0
                    then (Inr (), disconnect s2)
                    else (Inr (), s2)))
         else (Inr (), s1))"

text \<open>
  The outer loop over the snapshot \<open>keys\<close>. No key is removed before the loop
  returns, so every key read is an own property; a read of a missing one would be a
  TypeError on \<open>.length\<close>.
\<close>

fun unsubscribeLoop ::
  "string list \<Rightarrow> string \<Rightarrow> 'cb zmq_service \<Rightarrow> (error + unit) \<times> 'cb zmq_service" where
  "unsubscribeLoop [] subscriptionId s = (Inr (), s)"
| "unsubscribeLoop (eventKey # keys) subscriptionId s =
     (case map_of (subscriptions s) eventKey of
        None \<Rightarrow> (Inl TypeError, s)
      | Some subs \<Rightarrow>
          (case findId subscriptionId subs of
             Some j \<Rightarrow> removeAt eventKey j subs s
           | None \<Rightarrow> unsubscribeLoop keys subscriptionId s))"

definition unsubscribe :: "string \<Rightarrow> 'cb zmq_service \<Rightarrow> (error + unit) \<times> 'cb zmq_service" where
  "unsubscribe subscriptionId s =
     unsubscribeLoop (objectKeys (subscriptions s)) subscriptionId s"

subsection \<open>Message handling\<close>

record ('d, 'm) payload =
  data :: 'd
  messageType :: 'm
  tag :: "string option"
  hash :: "string option"
  address :: "string option"
  timestamp :: js_number

text \<open>One call \<open>callback(event, payload)\<close>.\<close>

record ('cb, 'd, 'm) invocation =
  inv_callback :: 'cb
  inv_event :: "string option"
  inv_payload :: "('d, 'm) payload"

definition buildPayload :: "'d \<Rightarrow> 'm \<Rightarrow> string list \<Rightarrow> ('d, 'm) payload" where
  "buildPayload d mt messageParams =
     \<lparr>data = d,
      messageType = mt,
      tag = index messageParams 12,
      hash = index messageParams 1,
      address = index messageParams 2,
      timestamp = parseInt (toString (index messageParams 5))\<rparr>"

text \<open>
  \<open>this._subscriptions[event][0].callback(event, payload)\<close>: anything but an own,
  non-empty array under the name is a TypeError. The result lists the callbacks
  invoked. What the callback does when it runs is outside the model.
\<close>

definition sendEvent ::
  "'d \<Rightarrow> 'm \<Rightarrow> string list \<Rightarrow> 'cb zmq_service \<Rightarrow> error + ('cb, 'd, 'm) invocation list" where
  "sendEvent d mt messageParams s =
     (let event = index messageParams 0;
          payload = buildPayload d mt messageParams
      in case getProp (subscriptions s) (toString event) of
           Own (x # xs) \<Rightarrow>
             Inr [\<lparr>inv_callback = callback x, inv_event = event, inv_payload = payload\<rparr>]
         | _ \<Rightarrow> Inl TypeError)"

text \<open>
  \<open>handleMessage\<close>. The two imported helpers are parameters:
  \<open>extractMessageType\<close> maps a tag to a message type or to a falsy value (\<open>None\<close>),
  \<open>getPayload\<close> maps the bundle field to the data; both are taken to return. On a
  message with no field 12 the tag is \<open>undefined\<close>: whatever \<open>extractMessageType\<close>
  does with it, \<open>tag.startsWith\<close> raises, so the handler ends in a TypeError (the
  rejection of the promise the async method returns).
\<close>

definition handleMessage ::
  "(string \<Rightarrow> 'm option) \<Rightarrow> (string option \<Rightarrow> 'd) \<Rightarrow> 'cb zmq_service \<Rightarrow> string \<Rightarrow>
     error + ('cb, 'd, 'm) invocation list" where
  "handleMessage extractMessageType getPayload s message =
     (let messageParams = split CHR '' '' message;
          event = index messageParams 0;
          tag = index messageParams 12
      in if event = Some ''tx'' \<and> getProp (subscriptions s) ''tx'' \<noteq> Undefined then
           (case tag of
              None \<Rightarrow> Inl TypeError
            | Some t \<Rightarrow>
                (case extractMessageType t of
                   Some mt \<Rightarrow>
                     if startsWith t (prefix (config s)) then
                       (let bundle = index messageParams 8;
                            d = getPayload bundle
                        in sendEvent d mt messageParams s)
                     else Inr []
                 | None \<Rightarrow> Inr []))
         else Inr [])"

text \<open>The callbacks a run of the handler has invoked: none when it raised.\<close>

definition invoked :: "error + 'i list \<Rightarrow> 'i list" where
  "invoked r = (case r of Inl e \<Rightarrow> [] | Inr is \<Rightarrow> is)"

section \<open>Sequences of calls on the public interface\<close>

text \<open>
  A caller's \<open>subscribe\<close> or \<open>unsubscribe\<close>, with what the environment answers
  during the call. \<open>perform\<close> keeps the state a call leaves, whether it returned
  or threw.
\<close>

datatype 'cb call = Subscribe string 'cb string open_outcome | Unsubscribe string

fun perform :: "'cb call \<Rightarrow> 'cb zmq_service \<Rightarrow> 'cb zmq_service" where
  "perform (Subscribe event cb uuid oc) s = snd (subscribe event cb uuid oc s)"
| "perform (Unsubscribe subscriptionId) s = snd (unsubscribe subscriptionId s)"

definition performAll :: "'cb call list \<Rightarrow> 'cb zmq_service \<Rightarrow> 'cb zmq_service" where
  "performAll calls s = foldl (\<lambda>s c. perform c s) s calls"

fun opensSucceed :: "'cb call \<Rightarrow> bool" where
  "opensSucceed (Subscribe event cb uuid oc) = (oc = OpenOk)"
| "opensSucceed (Unsubscribe subscriptionId) = True"

text \<open>The ids held in a registry.\<close>

definition registryIds :: "(string \<times> 'cb subscription list) list \<Rightarrow> string set" where
  "registryIds obj = (\<Union>(k, subs) \<in> set obj. sub_id ` set subs)"

section \<open>The process: the service and its source of ids\<close>

text \<open>
  Modelled from the spec: \<open>uuid()\<close>, imported from the package \<open>uuid/v4\<close>, which is
  not under src/. The spec (sections 3 and 4.3): subscribe "always creates a fresh unique
  id", and "an id is unique across the process lifetime of the registry". The \<open>n\<close>-th
  call of \<open>uuid()\<close> in the process returns \<open>uuid_v4 n\<close>, a text no other call returns;
  the texts themselves are immaterial and are numbered in unary here.
\<close>

definition uuid_v4 :: "nat \<Rightarrow> string" where
  "uuid_v4 n = ''uuid-'' @ replicate n CHR ''I''"

text \<open>
  The service together with the number of \<open>uuid()\<close> calls made so far.
  \<open>internalAddEventCallback\<close> calls \<open>uuid()\<close> once, whether or not it then throws.
\<close>

record 'cb process =
  service :: "'cb zmq_service"
  uuidCalls :: nat

definition new_process :: "cfg \<Rightarrow> 'cb process" where
  "new_process c = \<lparr>service = new_ZmqService c, uuidCalls = 0\<rparr>"

definition subscribeCall ::
  "string \<Rightarrow> 'cb \<Rightarrow> open_outcome \<Rightarrow> 'cb process \<Rightarrow> (error + string) \<times> 'cb process" where
  "subscribeCall event cb oc p =
     (fst (subscribe event cb (uuid_v4 (uuidCalls p)) oc (service p)),
      \<lparr>service = snd (subscribe event cb (uuid_v4 (uuidCalls p)) oc (service p)),
       uuidCalls = Suc (uuidCalls p)\<rparr>)"

definition unsubscribeCall :: "string \<Rightarrow> 'cb process \<Rightarrow> (error + unit) \<times> 'cb process" where
  "unsubscribeCall subscriptionId p =
     (fst (unsubscribe subscriptionId (service p)),
      p\<lparr>service := snd (unsubscribe subscriptionId (service p))\<rparr>)"

datatype 'cb request = SubscribeRequest string 'cb open_outcome | UnsubscribeRequest string

fun serve :: "'cb request \<Rightarrow> 'cb process \<Rightarrow> 'cb process" where
  "serve (SubscribeRequest event cb oc) p = snd (subscribeCall event cb oc p)"
| "serve (UnsubscribeRequest subscriptionId) p = snd (unsubscribeCall subscriptionId p)"

definition serveAll :: "'cb request list \<Rightarrow> 'cb process \<Rightarrow> 'cb process" where
  "serveAll requests p = foldl (\<lambda>p r. serve r p) p requests"

text \<open>The ids the subscribe calls of a run return to their callers, in order.\<close>

fun returnedIds :: "'cb request list \<Rightarrow> 'cb process \<Rightarrow> string list" where
  "returnedIds [] p = []"
| "returnedIds (SubscribeRequest event cb oc # requests) p =
     (case fst (subscribeCall event cb oc p) of Inl e \<Rightarrow> [] | Inr i \<Rightarrow> [i])
     @ returnedIds requests (snd (subscribeCall event cb oc p))"
| "returnedIds (UnsubscribeRequest subscriptionId # requests) p =
     returnedIds requests (snd (unsubscribeCall subscriptionId p))"

section \<open>Notions used in the proofs\<close>

text \<open>The state after the registry was updated, before \<open>connect\<close> runs.\<close>

definition registered :: "string \<Rightarrow> 'cb \<Rightarrow> string \<Rightarrow> 'cb zmq_service \<Rightarrow> 'cb zmq_service" where
  "registered event cb uuid s =
     (case map_of (subscriptions s) event of
        None \<Rightarrow>
          s\<lparr>zmq := (case socket s of Some h \<Rightarrow> zmq s @ [SockSubscribe h event] | None \<Rightarrow> zmq s),
            subscriptions := AList.update event [\<lparr>sub_id = uuid, callback = cb\<rparr>] (subscriptions s)\<rparr>
      | Some subs \<Rightarrow>
          s\<lparr>subscriptions := AList.update event (subs @ [\<lparr>sub_id = uuid, callback = cb\<rparr>]) (subscriptions s)\<rparr>)"

text \<open>
  The invariant of the states reached when every open succeeds: a socket is held exactly
  when the registry has a key, it is the one open socket of the library, no key has an
  empty list, and the keys are distinct.
\<close>

definition consistent :: "'cb zmq_service \<Rightarrow> bool" where
  "consistent s =
     ((socket s = None \<longleftrightarrow> subscriptions s = [])
      \<and> openSockets (zmq s) = (case socket s of None \<Rightarrow> [] | Some h \<Rightarrow> [h])
      \<and> list_all (\<lambda>(k, subs). subs \<noteq> []) (subscriptions s)
      \<and> distinct (map fst (subscriptions s)))"

text \<open>Every id in the registry of a process was drawn by an earlier \<open>uuid()\<close> call.\<close>

definition idsDrawn :: "'cb process \<Rightarrow> bool" where
  "idsDrawn p = (registryIds (subscriptions (service p)) \<subseteq> uuid_v4 ` {..<uuidCalls p})"

section \<open>A sample deployment\<close>

text \<open>
  A configuration, stand-ins for the two imported helpers, and the service after one
  subscription to \<open>tx\<close>, after a further one to \<open>block\<close>, and after three to
  \<open>tx\<close>; callbacks are numbered.
\<close>

definition exampleConfig :: cfg where
  "exampleConfig = \<lparr>endpoint = ''tcp://node:5556'', prefix = ''SEMARKET''\<rparr>"

definition exampleClassify :: "string \<Rightarrow> string option" where
  "exampleClassify t =
     (if t \<noteq> [] \<and> last t = CHR ''A'' then Some ''callForProposal'' else None)"

definition examplePayload :: "string option \<Rightarrow> string" where
  "examplePayload bundle = ''payload of '' @ toString bundle"

definition exampleService :: "nat zmq_service" where
  "exampleService =
     \<lparr>config = exampleConfig, socket = Some 0,
      subscriptions = [(''tx'', [\<lparr>sub_id = ''id-1'', callback = 1\<rparr>])],
      zmq = [ZmqSocket 0, SockConnect 0 ''tcp://node:5556'', SockOn 0, SockSubscribe 0 ''tx'']\<rparr>"

definition exampleTwoEvents :: "nat zmq_service" where
  "exampleTwoEvents =
     \<lparr>config = exampleConfig, socket = Some 0,
      subscriptions = [(''tx'', [\<lparr>sub_id = ''id-1'', callback = 1\<rparr>]),
                       (''block'', [\<lparr>sub_id = ''id-2'', callback = 2\<rparr>])],
      zmq = [ZmqSocket 0, SockConnect 0 ''tcp://node:5556'', SockOn 0, SockSubscribe 0 ''tx'',
             SockSubscribe 0 ''block'']\<rparr>"

definition exampleThreeOnTx :: "nat zmq_service" where
  "exampleThreeOnTx =
     \<lparr>config = exampleConfig, socket = Some 0,
      subscriptions = [(''tx'', [\<lparr>sub_id = ''id-1'', callback = 1\<rparr>,
                                 \<lparr>sub_id = ''id-2'', callback = 2\<rparr>,
                                 \<lparr>sub_id = ''id-3'', callback = 3\<rparr>])],
      zmq = [ZmqSocket 0, SockConnect 0 ''tcp://node:5556'', SockOn 0, SockSubscribe 0 ''tx'']\<rparr>"

section \<open>Auxiliary facts\<close>

subsection \<open>Object keys and the unsubscribe loops\<close>

lemma set_objectKeys: "set (objectKeys obj) = fst ` set obj"
  by (auto simp: objectKeys_def Let_def)

lemma objectKeys_empty: "objectKeys obj = [] \<longleftrightarrow> obj = []"
proof -
  have "set (objectKeys obj) = {} \<longleftrightarrow> obj = []"
    by (simp add: set_objectKeys)
  then show ?thesis by simp
qed

lemma findId_None: "findId sid subs = None \<longleftrightarrow> (\<forall>x \<in> set subs. sub_id x \<noteq> sid)"
  by (induction subs) auto

lemma findId_append_fresh:
  "\<forall>y \<in> set old. sub_id y \<noteq> sub_id x \<Longrightarrow> findId (sub_id x) (old @ x # rest) = Some (length old)"
  by (induction old) auto

lemma unsubscribeLoop_absent:
  assumes "set keys \<subseteq> fst ` set (subscriptions s)"
    and "\<forall>(k, subs) \<in> set (subscriptions s). \<forall>x \<in> set subs. sub_id x \<noteq> sid"
  shows "unsubscribeLoop keys sid s = (Inr (), s)"
  using assms
proof (induction keys)
  case Nil
  then show ?case by simp
next
  case (Cons k keys)
  from Cons.prems(1) obtain subs where m: "map_of (subscriptions s) k = Some subs"
    by (cases "map_of (subscriptions s) k") (auto simp: map_of_eq_None_iff)
  then have "(k, subs) \<in> set (subscriptions s)" by (rule map_of_SomeD)
  with Cons.prems(2) have "findId sid subs = None"
    by (auto simp: findId_None)
  with m Cons show ?case by simp
qed

lemma unsubscribeLoop_found:
  assumes "set keys \<subseteq> fst ` set (subscriptions s)"
    and "event \<in> set keys"
    and "map_of (subscriptions s) event = Some subs"
    and "findId sid subs = Some j"
    and "\<forall>(k, l) \<in> set (subscriptions s). k \<noteq> event \<longrightarrow> (\<forall>x \<in> set l. sub_id x \<noteq> sid)"
  shows "unsubscribeLoop keys sid s = removeAt event j subs s"
  using assms(1,2)
proof (induction keys)
  case Nil
  then show ?case by simp
next
  case (Cons k keys)
  show ?case
  proof (cases "k = event")
    case True
    with assms(3,4) show ?thesis by simp
  next
    case False
    from Cons.prems(1) obtain l where m: "map_of (subscriptions s) k = Some l"
      by (cases "map_of (subscriptions s) k") (auto simp: map_of_eq_None_iff)
    then have "(k, l) \<in> set (subscriptions s)" by (rule map_of_SomeD)
    with assms(5) False have "findId sid l = None"
      by (auto simp: findId_None)
    with m Cons False show ?thesis by simp
  qed
qed

subsection \<open>parseInt on a run of digits\<close>

lemma isDigit_not_special:
  "isDigit c \<Longrightarrow> \<not> isWhiteSpace c \<and> c \<noteq> CHR ''+'' \<and> c \<noteq> CHR ''-''"
  by (auto simp: isDigit_def isWhiteSpace_def)

lemma parseInt_digits:
  assumes "ds \<noteq> []" and "list_all isDigit ds"
  shows "parseInt ds = Num (int (decimalValue ds))"
proof -
  from assms obtain c cs where ds: "ds = c # cs" and c: "isDigit c"
    by (cases ds) auto
  from assms(2) have tw: "takeWhile isDigit ds = ds"
    by (simp add: list_all_iff)
  from c have "\<not> isWhiteSpace c" "c \<noteq> CHR ''+''" "c \<noteq> CHR ''-''"
    using isDigit_not_special by blast+
  then show ?thesis
    using tw assms(1) by (simp add: parseInt_def ds Let_def)
qed

subsection \<open>Property reads and the message handler\<close>

lemma getProp_tx:
  "getProp obj ''tx'' = (case map_of obj ''tx'' of None \<Rightarrow> Undefined | Some v \<Rightarrow> Own v)"
  by (simp add: getProp_def objectPrototypeNames_def)

lemma index_Some: "index xs i = Some v \<longleftrightarrow> i < length xs \<and> xs ! i = v"
  by (auto simp: index_def)

lemma index_None: "index xs i = None \<longleftrightarrow> length xs \<le> i"
  by (auto simp: index_def)

text \<open>The handler, with the property reads resolved.\<close>

lemma handleMessage_tx:
  "handleMessage emt gp s message =
     (let fs = split CHR '' '' message in
      if index fs 0 = Some ''tx'' then
        (case map_of (subscriptions s) ''tx'' of
           None \<Rightarrow> Inr []
         | Some subs \<Rightarrow>
            (case index fs 12 of
               None \<Rightarrow> Inl TypeError
             | Some t \<Rightarrow>
                (case emt t of
                   None \<Rightarrow> Inr []
                 | Some mt \<Rightarrow>
                    if startsWith t (prefix (config s)) then
                      (case subs of
                         [] \<Rightarrow> Inl TypeError
                       | x # xs \<Rightarrow>
                           Inr [\<lparr>inv_callback = callback x, inv_event = Some ''tx'',
                                 inv_payload = buildPayload (gp (index fs 8)) mt fs\<rparr>])
                    else Inr [])))
      else Inr [])"
  by (auto simp: handleMessage_def Let_def getProp_tx sendEvent_def toString_def
           split: option.splits list.splits)

text \<open>The three ways the handler ends: silently, in a TypeError, or with one call.\<close>

lemma handleMessage_cases:
  fixes s :: "'cb zmq_service" and emt :: "string \<Rightarrow> 'm option" and gp :: "string option \<Rightarrow> 'd"
  obtains (dropped) "handleMessage emt gp s message = Inr []"
        and "index (split CHR '' '' message) 0 \<noteq> Some ''tx''
             \<or> map_of (subscriptions s) ''tx'' = None
             \<or> (\<exists>t. index (split CHR '' '' message) 12 = Some t
                    \<and> (emt t = None \<or> \<not> startsWith t (prefix (config s))))"
  | (raised) "handleMessage emt gp s message = Inl TypeError"
        and "index (split CHR '' '' message) 0 = Some ''tx''"
        and "map_of (subscriptions s) ''tx'' \<noteq> None"
        and "index (split CHR '' '' message) 12 = None
             \<or> (\<exists>t. index (split CHR '' '' message) 12 = Some t
                    \<and> startsWith t (prefix (config s)))"
  | (sent) x xs t mt where
        "index (split CHR '' '' message) 0 = Some ''tx''"
        and "map_of (subscriptions s) ''tx'' = Some (x # xs)"
        and "index (split CHR '' '' message) 12 = Some t"
        and "emt t = Some mt" and "startsWith t (prefix (config s))"
        and "handleMessage emt gp s message =
               Inr [\<lparr>inv_callback = callback x, inv_event = Some ''tx'',
                     inv_payload = buildPayload (gp (index (split CHR '' '' message) 8)) mt
                                     (split CHR '' '' message)\<rparr>]"
proof (cases "index (split CHR '' '' message) 0 = Some ''tx''")
  case False
  then have "handleMessage emt gp s message = Inr []"
    by (simp add: handleMessage_tx)
  then show ?thesis using False by (intro dropped) simp_all
next
  case tx: True
  show ?thesis
  proof (cases "map_of (subscriptions s) ''tx''")
    case None
    with tx have "handleMessage emt gp s message = Inr []"
      by (simp add: handleMessage_tx)
    then show ?thesis using None by (intro dropped) simp_all
  next
    case (Some subs)
    show ?thesis
    proof (cases "index (split CHR '' '' message) 12")
      case None
      with tx Some have "handleMessage emt gp s message = Inl TypeError"
        by (simp add: handleMessage_tx)
      then show ?thesis using tx Some None by (intro raised) simp_all
    next
      case tag: (Some t)
      show ?thesis
      proof (cases "emt t")
        case None
        with tx Some tag have "handleMessage emt gp s message = Inr []"
          by (simp add: handleMessage_tx)
        then show ?thesis using tag None by (intro dropped) simp_all
      next
        case mt: (Some mt)
        show ?thesis
        proof (cases "startsWith t (prefix (config s))")
          case False
          with tx Some tag mt have "handleMessage emt gp s message = Inr []"
            by (simp add: handleMessage_tx)
          then show ?thesis using tag False by (intro dropped) simp_all
        next
          case pf: True
          show ?thesis
          proof (cases subs)
            case Nil
            with tx Some tag mt pf have "handleMessage emt gp s message = Inl TypeError"
              by (simp add: handleMessage_tx)
            then show ?thesis using tx Some tag pf by (intro raised) simp_all
          next
            case (Cons x xs)
            with tx Some tag mt pf show ?thesis
              by (intro sent [of x xs t mt]) (simp_all add: handleMessage_tx Let_def)
          qed
        qed
      qed
    qed
  qed
qed

lemma map_of_filter_key: "map_of (filter (\<lambda>(k, v). k = a) obj) a = map_of obj a"
  by (induction obj) auto

subsection \<open>Registration and connect\<close>

lemma getProp_Own: "getProp obj k = Own v \<longleftrightarrow> map_of obj k = Some v"
  by (auto simp: getProp_def split: option.splits)

lemma getProp_Undefined_None: "getProp obj k = Undefined \<Longrightarrow> map_of obj k = None"
  by (auto simp: getProp_def split: option.splits if_splits)

lemma connect_subscriptions [simp]: "subscriptions (snd (connect oc s)) = subscriptions s"
  by (simp add: connect_def Let_def split: option.splits open_outcome.splits)

lemma connect_fails:
  assumes "socket s = None" and "oc = SocketThrows err \<or> oc = ConnectThrows err"
  shows "fst (connect oc s) = Inl (unableToConnect err)"
  using assms by (auto simp: connect_def Let_def)

lemma internalAddEventCallback_registered:
  assumes "getProp (subscriptions s) event \<noteq> Inherited"
  shows "internalAddEventCallback event cb uuid oc s =
     (case connect oc (registered event cb uuid s) of
        (Inl e, s3) \<Rightarrow> (Inl e, s3)
      | (Inr u, s3) \<Rightarrow> (Inr uuid, s3))"
proof (cases "getProp (subscriptions s) event")
  case Undefined
  then have "map_of (subscriptions s) event = None" by (rule getProp_Undefined_None)
  with Undefined show ?thesis
    by (simp add: internalAddEventCallback_def registered_def Let_def getProp_def update_conv')
next
  case Inherited
  with assms show ?thesis by simp
next
  case (Own subs)
  then have "map_of (subscriptions s) event = Some subs" by (simp add: getProp_Own)
  with Own show ?thesis
    by (simp add: internalAddEventCallback_def registered_def Let_def)
qed

lemma internalAddEventCallback_inherited:
  assumes "getProp (subscriptions s) event = Inherited"
  shows "internalAddEventCallback event cb uuid oc s = (Inl TypeError, s)"
  using assms by (simp add: internalAddEventCallback_def Let_def)

lemma map_of_registered:
  "map_of (subscriptions (registered event cb uuid s)) =
     (map_of (subscriptions s))
       (event \<mapsto> (case map_of (subscriptions s) event of None \<Rightarrow> [] | Some subs \<Rightarrow> subs)
                   @ [\<lparr>sub_id = uuid, callback = cb\<rparr>])"
  by (simp add: registered_def update_conv' split: option.splits)

subsection \<open>The invariant\<close>

lemma openSockets_append: "openSockets (cs @ ds) = foldl replay (openSockets cs) ds"
  by (simp add: openSockets_def)

lemma foldl_replay_subscribes: "foldl replay hs (map (SockSubscribe h) ks) = hs"
  by (induction ks) auto

lemma consistent_new: "consistent (new_ZmqService c)"
  by (simp add: consistent_def new_ZmqService_def openSockets_def)

lemma list_all_update:
  "list_all (\<lambda>(k, v). P v) obj \<Longrightarrow> P v \<Longrightarrow> list_all (\<lambda>(k, v). P v) (AList.update a v obj)"
  by (induction obj) auto

lemma list_all_delete:
  "list_all P obj \<Longrightarrow> list_all P (AList.delete a obj)"
  by (induction obj) auto

lemma consistent_connect:
  assumes "subscriptions s \<noteq> []"
    and "openSockets (zmq s) = (case socket s of None \<Rightarrow> [] | Some h \<Rightarrow> [h])"
    and "list_all (\<lambda>(k, subs). subs \<noteq> []) (subscriptions s)"
    and "distinct (map fst (subscriptions s))"
  shows "consistent (snd (connect OpenOk s))"
  using assms
  by (auto simp: consistent_def connect_def Let_def openSockets_append foldl_replay_subscribes
      split: option.splits)

lemma registered_parts:
  assumes "consistent s"
  shows "subscriptions (registered event cb uuid s) \<noteq> []"
    and "openSockets (zmq (registered event cb uuid s)) =
          (case socket (registered event cb uuid s) of None \<Rightarrow> [] | Some h \<Rightarrow> [h])"
    and "list_all (\<lambda>(k, subs). subs \<noteq> []) (subscriptions (registered event cb uuid s))"
    and "distinct (map fst (subscriptions (registered event cb uuid s)))"
  using assms
  by (auto simp: consistent_def registered_def openSockets_append distinct_update
      intro!: list_all_update split: option.splits)

lemma consistent_subscribe:
  assumes "consistent s"
  shows "consistent (snd (subscribe event cb uuid OpenOk s))"
proof (cases "getProp (subscriptions s) event = Inherited")
  case True
  with assms show ?thesis
    by (simp add: subscribe_def internalAddEventCallback_inherited)
next
  case False
  have "consistent (snd (connect OpenOk (registered event cb uuid s)))"
    using registered_parts [OF assms] by (rule consistent_connect)
  with False show ?thesis
    by (cases "connect OpenOk (registered event cb uuid s)")
       (auto simp: subscribe_def internalAddEventCallback_registered split: sum.splits)
qed

lemma consistent_removeAt:
  assumes "consistent s" and "map_of (subscriptions s) k = Some subs"
  shows "consistent (snd (removeAt k j subs s))"
proof -
  from assms(2) have ne: "subscriptions s \<noteq> []" by auto
  with assms(1) obtain h where h: "socket s = Some h"
    by (auto simp: consistent_def)
  from assms(1) have la: "list_all (\<lambda>(k, subs). subs \<noteq> []) (subscriptions s)"
    and d: "distinct (map fst (subscriptions s))"
    and o: "openSockets (zmq s) = [h]"
    using h by (auto simp: consistent_def)
  show ?thesis
  proof (cases "splice1 j subs = []")
    case True
    then show ?thesis
      using h la d o
      by (auto simp: removeAt_def Let_def consistent_def delete_update_same objectKeys_empty
            disconnect_def openSockets_append distinct_delete intro!: list_all_delete)
  next
    case False
    then show ?thesis
      using h la d o
      by (auto simp: removeAt_def Let_def consistent_def distinct_update intro!: list_all_update)
  qed
qed

lemma unsubscribeLoop_cases:
  "unsubscribeLoop keys sid s = (Inr (), s) \<or> unsubscribeLoop keys sid s = (Inl TypeError, s)
   \<or> (\<exists>k j subs. map_of (subscriptions s) k = Some subs \<and> unsubscribeLoop keys sid s = removeAt k j subs s)"
  by (induction keys) (auto split: option.splits)

lemma consistent_unsubscribe:
  assumes "consistent s"
  shows "consistent (snd (unsubscribe sid s))"
  using unsubscribeLoop_cases [of "objectKeys (subscriptions s)" sid s] assms
  by (auto simp: unsubscribe_def consistent_removeAt)

lemma consistent_perform:
  "consistent s \<Longrightarrow> opensSucceed c \<Longrightarrow> consistent (perform c s)"
  by (cases c) (auto simp: consistent_subscribe consistent_unsubscribe)

lemma consistent_performAll:
  "consistent s \<Longrightarrow> \<forall>c \<in> set calls. opensSucceed c \<Longrightarrow> consistent (performAll calls s)"
  unfolding performAll_def
  by (induction calls arbitrary: s) (auto simp: consistent_perform)

subsection \<open>Subscribing and unsubscribing one of several\<close>

lemma connect_ok: "fst (connect OpenOk s) = Inr ()"
  by (simp add: connect_def Let_def split: option.splits)

lemma connect_config [simp]: "config (snd (connect oc s)) = config s"
  by (simp add: connect_def Let_def split: option.splits open_outcome.splits)

lemma registered_config [simp]: "config (registered event cb uuid s) = config s"
  by (simp add: registered_def split: option.splits)

lemma subscribe_ok:
  assumes "getProp (subscriptions s) event \<noteq> Inherited"
  shows "subscribe event cb uuid OpenOk s
          = (Inr uuid, snd (connect OpenOk (registered event cb uuid s)))"
  using assms connect_ok [of "registered event cb uuid s"]
  by (cases "connect OpenOk (registered event cb uuid s)")
     (simp add: subscribe_def internalAddEventCallback_registered)

lemma set_update_other:
  "(k, v) \<in> set (AList.update a w obj) \<Longrightarrow> k \<noteq> a \<Longrightarrow> (k, v) \<in> set obj"
  by (induction obj) (auto split: if_splits)

lemma set_registered_other:
  "(k, subs) \<in> set (subscriptions (registered event cb uuid s)) \<Longrightarrow> k \<noteq> event
     \<Longrightarrow> (k, subs) \<in> set (subscriptions s)"
  by (auto simp: registered_def split: option.splits dest: set_update_other)

lemma splice1_append: "splice1 (length pre) (pre @ x # rest) = pre @ rest"
  by (simp add: splice1_def)

lemma removeAt_nonempty:
  "splice1 j subs \<noteq> [] \<Longrightarrow>
     removeAt k j subs s
       = (Inr (), s\<lparr>subscriptions := AList.update k (splice1 j subs) (subscriptions s)\<rparr>)"
  by (simp add: removeAt_def Let_def)

lemma unsubscribe_one_of_several:
  assumes m: "map_of (subscriptions s) event = Some (pre @ x # rest)"
    and pre: "\<forall>y \<in> set pre. sub_id y \<noteq> sub_id x"
    and ne: "pre @ rest \<noteq> []"
    and others: "\<forall>(k, l) \<in> set (subscriptions s). k \<noteq> event \<longrightarrow> (\<forall>y \<in> set l. sub_id y \<noteq> sub_id x)"
  shows "unsubscribe (sub_id x) s
          = (Inr (), s\<lparr>subscriptions := AList.update event (pre @ rest) (subscriptions s)\<rparr>)"
proof -
  from m have "(event, pre @ x # rest) \<in> set (subscriptions s)" by (rule map_of_SomeD)
  then have mem: "event \<in> set (objectKeys (subscriptions s))"
    by (force simp: set_objectKeys)
  have f: "findId (sub_id x) (pre @ x # rest) = Some (length pre)"
    using pre by (rule findId_append_fresh)
  have "unsubscribe (sub_id x) s = removeAt event (length pre) (pre @ x # rest) s"
    unfolding unsubscribe_def
    using mem m f others
    by (intro unsubscribeLoop_found) (simp_all add: set_objectKeys)
  with ne show ?thesis by (simp add: removeAt_nonempty splice1_append)
qed

lemma handleMessage_match:
  assumes "split CHR '' '' message = fs"
    and "length fs = 13"
    and "fs ! 0 = ''tx''"
    and "emt (fs ! 12) = Some mt"
    and "startsWith (fs ! 12) (prefix (config s))"
    and "map_of (subscriptions s) ''tx'' = Some (x # xs)"
  shows "handleMessage emt gp s message =
     Inr [\<lparr>inv_callback = callback x, inv_event = Some ''tx'',
           inv_payload = buildPayload (gp (Some (fs ! 8))) mt fs\<rparr>]"
proof -
  from assms(2) have ix: "\<And>i. i < 13 \<Longrightarrow> index fs i = Some (fs ! i)"
    by (simp add: index_def)
  show ?thesis
    using assms(1,3,4,5,6) by (simp add: handleMessage_tx ix)
qed

lemma removeAt_last:
  assumes "socket s = Some h"
  shows "removeAt event 0 [x] s =
     (Inr (),
      if AList.delete event (subscriptions s) = []
      then s\<lparr>subscriptions := [], socket := None,
             zmq := zmq s @ [SockUnsubscribe h event, SockClose h]\<rparr>
      else s\<lparr>subscriptions := AList.delete event (subscriptions s),
             zmq := zmq s @ [SockUnsubscribe h event]\<rparr>)"
  using assms
  by (simp add: removeAt_def splice1_def Let_def delete_update_same objectKeys_empty disconnect_def)

subsection \<open>The ids in the registry\<close>

lemma registryIds_update:
  "registryIds (AList.update k subs obj) \<subseteq> registryIds obj \<union> sub_id ` set subs"
  by (induction obj) (auto simp: registryIds_def split: if_splits)

lemma registryIds_delete: "registryIds (AList.delete k obj) \<subseteq> registryIds obj"
  by (induction obj) (auto simp: registryIds_def)

lemma registryIds_lookup: "map_of obj k = Some subs \<Longrightarrow> sub_id ` set subs \<subseteq> registryIds obj"
  by (auto simp: registryIds_def dest!: map_of_SomeD)

lemma set_splice1: "set (splice1 j xs) \<subseteq> set xs"
  by (auto simp: splice1_def dest: in_set_takeD in_set_dropD)

lemma removeAt_ids:
  assumes "map_of (subscriptions s) k = Some subs"
  shows "registryIds (subscriptions (snd (removeAt k j subs s))) \<subseteq> registryIds (subscriptions s)"
proof -
  have a: "registryIds (AList.update k (splice1 j subs) (subscriptions s)) \<subseteq> registryIds (subscriptions s)"
    using registryIds_update [of k "splice1 j subs" "subscriptions s"]
      registryIds_lookup [OF assms] set_splice1 [of j subs]
    by blast
  have b: "registryIds (AList.delete k (subscriptions s)) \<subseteq> registryIds (subscriptions s)"
    by (rule registryIds_delete)
  show ?thesis
    using a b
    by (auto simp: removeAt_def Let_def disconnect_def delete_update_same
        split: option.splits)
qed

lemma removeAt_socket:
  "socket (snd (removeAt k j subs s)) = None \<Longrightarrow>
     socket s = None \<or> subscriptions (snd (removeAt k j subs s)) = []"
  by (auto simp: removeAt_def Let_def disconnect_def objectKeys_empty split: option.splits if_splits)

lemma unsubscribe_ids:
  "registryIds (subscriptions (snd (unsubscribe i s))) \<subseteq> registryIds (subscriptions s)"
proof -
  consider "snd (unsubscribe i s) = s"
    | k j subs where "map_of (subscriptions s) k = Some subs"
        and "unsubscribe i s = removeAt k j subs s"
    using unsubscribeLoop_cases [of "objectKeys (subscriptions s)" i s]
    by (auto simp: unsubscribe_def)
  then show ?thesis
  proof cases
    case 1
    then show ?thesis by simp
  next
    case 2
    then show ?thesis using removeAt_ids [of s k subs j] by simp
  qed
qed

lemma unsubscribe_socket:
  assumes "socket (snd (unsubscribe i s)) = None"
  shows "socket s = None \<or> subscriptions (snd (unsubscribe i s)) = []"
proof -
  consider "snd (unsubscribe i s) = s"
    | k j subs where "unsubscribe i s = removeAt k j subs s"
    using unsubscribeLoop_cases [of "objectKeys (subscriptions s)" i s]
    by (auto simp: unsubscribe_def)
  then show ?thesis
  proof cases
    case 1
    with assms show ?thesis by simp
  next
    case 2
    with assms show ?thesis using removeAt_socket [of k j subs s] by simp
  qed
qed

lemma connect_socket_None:
  "socket (snd (connect oc s)) = None \<Longrightarrow> socket s = None \<and> fst (connect oc s) \<noteq> Inr ()"
  by (auto simp: connect_def Let_def unableToConnect_def split: option.splits open_outcome.splits)

lemma registered_ids:
  "registryIds (subscriptions (registered event cb uuid s)) \<subseteq> insert uuid (registryIds (subscriptions s))"
proof (cases "map_of (subscriptions s) event")
  case None
  then show ?thesis
    using registryIds_update [of event "[\<lparr>sub_id = uuid, callback = cb\<rparr>]" "subscriptions s"]
    by (auto simp: registered_def)
next
  case (Some subs)
  then show ?thesis
    using registryIds_update [of event "subs @ [\<lparr>sub_id = uuid, callback = cb\<rparr>]" "subscriptions s"]
      registryIds_lookup [OF Some]
    by (auto simp: registered_def)
qed

lemma registered_socket [simp]: "socket (registered event cb uuid s) = socket s"
  by (simp add: registered_def split: option.splits)

lemma subscribe_ids:
  "registryIds (subscriptions (snd (subscribe event cb uuid oc s)))
     \<subseteq> insert uuid (registryIds (subscriptions s))"
proof (cases "getProp (subscriptions s) event = Inherited")
  case True
  then show ?thesis by (auto simp: subscribe_def internalAddEventCallback_inherited)
next
  case False
  have "subscriptions (snd (subscribe event cb uuid oc s)) = subscriptions (registered event cb uuid s)"
    using False connect_subscriptions [of oc "registered event cb uuid s"]
    by (cases "connect oc (registered event cb uuid s)")
       (auto simp: subscribe_def internalAddEventCallback_registered split: sum.splits)
  then show ?thesis using registered_ids [of event cb uuid s] by simp
qed

lemma subscribe_returns:
  assumes "fst (subscribe event cb uuid oc s) = Inr i"
  shows "i = uuid \<and> socket (snd (subscribe event cb uuid oc s)) \<noteq> None"
proof (cases "getProp (subscriptions s) event = Inherited")
  case True
  with assms show ?thesis by (simp add: subscribe_def internalAddEventCallback_inherited)
next
  case False
  with assms connect_socket_None [of oc "registered event cb uuid s"] show ?thesis
    by (cases "connect oc (registered event cb uuid s)")
       (auto simp: subscribe_def internalAddEventCallback_registered split: sum.splits)
qed

lemma subscribe_socket_None:
  assumes "socket (snd (subscribe event cb uuid oc s)) = None"
  shows "socket s = None"
proof (cases "getProp (subscriptions s) event = Inherited")
  case True
  with assms show ?thesis by (simp add: subscribe_def internalAddEventCallback_inherited)
next
  case False
  with assms connect_socket_None [of oc "registered event cb uuid s"] show ?thesis
    by (cases "connect oc (registered event cb uuid s)")
       (auto simp: subscribe_def internalAddEventCallback_registered split: sum.splits)
qed

subsection \<open>Unsubscribing the only subscriber while a socket is held\<close>

lemma unsubscribe_only_subscriber_with_socket:
  assumes "socket s = Some h"
    and "map_of (subscriptions s) event = Some [x]"
    and "sub_id x = subscriptionId"
    and "\<forall>(k, subs) \<in> set (subscriptions s). k \<noteq> event \<longrightarrow> (\<forall>y \<in> set subs. sub_id y \<noteq> subscriptionId)"
  shows "unsubscribe subscriptionId s =
     (Inr (),
      if AList.delete event (subscriptions s) = []
      then s\<lparr>subscriptions := [], socket := None,
             zmq := zmq s @ [SockUnsubscribe h event, SockClose h]\<rparr>
      else s\<lparr>subscriptions := AList.delete event (subscriptions s),
             zmq := zmq s @ [SockUnsubscribe h event]\<rparr>)"
proof -
  from assms(2) have "(event, [x]) \<in> set (subscriptions s)" by (rule map_of_SomeD)
  then have mem: "event \<in> set (objectKeys (subscriptions s))"
    by (force simp: set_objectKeys)
  from assms(3) have f: "findId subscriptionId [x] = Some 0" by simp
  have "unsubscribe subscriptionId s = removeAt event 0 [x] s"
    unfolding unsubscribe_def
    using mem assms(2) f assms(4)
    by (intro unsubscribeLoop_found) (simp_all add: set_objectKeys)
  with assms(1) show ?thesis by (simp add: removeAt_last)
qed

subsection \<open>The source of ids and two subscriptions to one event\<close>

lemma uuid_v4_inject [simp]: "uuid_v4 m = uuid_v4 n \<longleftrightarrow> m = n"
  by (auto simp: uuid_v4_def replicate_eq_replicate)

lemma subscribe_returned:
  assumes "subscribe event cb u oc s = (Inr i, s')"
  shows "i = u"
    and "getProp (subscriptions s) event \<noteq> Inherited"
    and "subscriptions s' = subscriptions (registered event cb u s)"
    and "config s' = config s"
proof -
  have ni: "getProp (subscriptions s) event \<noteq> Inherited"
    using assms by (auto simp: subscribe_def internalAddEventCallback_inherited)
  then show "getProp (subscriptions s) event \<noteq> Inherited" .
  from ni assms have c: "connect oc (registered event cb u s) = (Inr (), s') \<and> i = u"
    by (cases "connect oc (registered event cb u s)")
       (auto simp: subscribe_def internalAddEventCallback_registered split: sum.splits)
  then show "i = u" by simp
  from c have "s' = snd (connect oc (registered event cb u s))" by simp
  then show "subscriptions s' = subscriptions (registered event cb u s)"
    and "config s' = config s"
    by simp_all
qed


lemma idsDrawn_new: "idsDrawn (new_process c)"
  by (simp add: idsDrawn_def new_process_def new_ZmqService_def registryIds_def)

lemma idsDrawn_serve: "idsDrawn p \<Longrightarrow> idsDrawn (serve r p)"
proof (cases r)
  case (SubscribeRequest event cb oc)
  assume "idsDrawn p"
  then show ?thesis
    using subscribe_ids [of event cb "uuid_v4 (uuidCalls p)" oc "service p"] SubscribeRequest
    by (auto simp: idsDrawn_def subscribeCall_def lessThan_Suc)
next
  case (UnsubscribeRequest i)
  assume "idsDrawn p"
  then show ?thesis
    using unsubscribe_ids [of i "service p"] UnsubscribeRequest
    by (auto simp: idsDrawn_def unsubscribeCall_def)
qed

lemma idsDrawn_serveAll: "idsDrawn p \<Longrightarrow> idsDrawn (serveAll requests p)"
  unfolding serveAll_def
  by (induction requests arbitrary: p) (auto simp: idsDrawn_serve)

lemma subscribeCall_returned:
  assumes "subscribeCall event cb oc p = (Inr i, p')"
  shows "i = uuid_v4 (uuidCalls p)" and "uuidCalls p' = Suc (uuidCalls p)"
    and "subscribe event cb i oc (service p) = (Inr i, service p')"
proof -
  from assms have f: "fst (subscribe event cb (uuid_v4 (uuidCalls p)) oc (service p)) = Inr i"
    and p': "p' = \<lparr>service = snd (subscribe event cb (uuid_v4 (uuidCalls p)) oc (service p)),
                    uuidCalls = Suc (uuidCalls p)\<rparr>"
    by (simp_all add: subscribeCall_def)
  from f have "subscribe event cb (uuid_v4 (uuidCalls p)) oc (service p)
      = (Inr i, snd (subscribe event cb (uuid_v4 (uuidCalls p)) oc (service p)))"
    by (metis prod.collapse)
  then have i: "i = uuid_v4 (uuidCalls p)" by (rule subscribe_returned(1))
  then show "i = uuid_v4 (uuidCalls p)" .
  from p' show "uuidCalls p' = Suc (uuidCalls p)" by simp
  from f p' i show "subscribe event cb i oc (service p) = (Inr i, service p')"
    by (simp add: prod_eq_iff)
qed

lemma returnedIds_from:
  "set (returnedIds requests p) \<subseteq> uuid_v4 ` {uuidCalls p..} \<and> distinct (returnedIds requests p)"
proof (induction requests arbitrary: p)
  case Nil
  show ?case by simp
next
  case (Cons r requests)
  show ?case
  proof (cases r)
    case (SubscribeRequest event cb oc)
    let ?p' = "snd (subscribeCall event cb oc p)"
    let ?r = "case fst (subscribeCall event cb oc p) of Inl e \<Rightarrow> [] | Inr i \<Rightarrow> [i]"
    have n: "uuidCalls ?p' = Suc (uuidCalls p)" by (simp add: subscribeCall_def)
    have r: "?r = [] \<or> ?r = [uuid_v4 (uuidCalls p)]"
    proof (cases "fst (subscribeCall event cb oc p)")
      case (Inl e)
      then show ?thesis by simp
    next
      case (Inr i)
      then have "subscribeCall event cb oc p = (Inr i, ?p')" by (metis prod.collapse)
      then have "i = uuid_v4 (uuidCalls p)" by (rule subscribeCall_returned(1))
      with Inr show ?thesis by simp
    qed
    from Cons.IH [of ?p'] n
    have rest: "set (returnedIds requests ?p') \<subseteq> uuid_v4 ` {Suc (uuidCalls p)..}"
      and d: "distinct (returnedIds requests ?p')"
      by simp_all
    from rest have notin: "uuid_v4 (uuidCalls p) \<notin> set (returnedIds requests ?p')"
      by auto
    from rest have up: "set (returnedIds requests ?p') \<subseteq> uuid_v4 ` {uuidCalls p..}"
      by auto
    have eq: "returnedIds (r # requests) p = ?r @ returnedIds requests ?p'"
      using SubscribeRequest by simp
    from r show ?thesis
    proof
      assume "?r = []"
      with eq have "returnedIds (r # requests) p = returnedIds requests ?p'" by simp
      with d up show ?thesis by simp
    next
      assume "?r = [uuid_v4 (uuidCalls p)]"
      with eq have "returnedIds (r # requests) p = uuid_v4 (uuidCalls p) # returnedIds requests ?p'"
        by simp
      with d notin up show ?thesis by simp
    qed
  next
    case (UnsubscribeRequest i)
    then show ?thesis
      using Cons.IH [of "snd (unsubscribeCall i p)"] by (simp add: unsubscribeCall_def)
  qed
qed

lemma two_subscriptions_fresh:
  assumes subA: "subscribe event cbA idA ocA s = (Inr idA, sA)"
    and subB: "subscribe event cbB idB ocB sA = (Inr idB, sB)"
    and neq: "idA \<noteq> idB"
    and fresh: "\<forall>(k, subs) \<in> set (subscriptions s). \<forall>x \<in> set subs. sub_id x \<noteq> idA \<and> sub_id x \<noteq> idB"
    and old: "old = (case map_of (subscriptions s) event of None \<Rightarrow> [] | Some subs \<Rightarrow> subs)"
    and eA: "eA = \<lparr>sub_id = idA, callback = cbA\<rparr>"
    and eB: "eB = \<lparr>sub_id = idB, callback = cbB\<rparr>"
  shows "map_of (subscriptions sB) event = Some (old @ [eA, eB])
       \<and> (\<forall>(k, subs) \<in> set (subscriptions sB).
             k \<noteq> event \<longrightarrow> (\<forall>x \<in> set subs. sub_id x \<noteq> idA \<and> sub_id x \<noteq> idB))
       \<and> unsubscribe idA sB
            = (Inr (), sB\<lparr>subscriptions := AList.update event (old @ [eB]) (subscriptions sB)\<rparr>)
       \<and> unsubscribe idB sB
            = (Inr (), sB\<lparr>subscriptions := AList.update event (old @ [eA]) (subscriptions sB)\<rparr>)
       \<and> (event = ''tx'' \<and> split CHR '' '' message = fs \<and> length fs = 13 \<and> fs ! 0 = ''tx''
            \<and> extractMessageType (fs ! 12) = Some mt \<and> startsWith (fs ! 12) (prefix (config s))
          \<longrightarrow> map inv_callback
                 (invoked (handleMessage extractMessageType getPayload (snd (unsubscribe idA sB)) message))
                = [callback (hd (old @ [eB]))]
            \<and> map inv_callback
                 (invoked (handleMessage extractMessageType getPayload (snd (unsubscribe idB sB)) message))
                = [callback (hd (old @ [eA]))])"
proof -
  have subs1: "subscriptions sA = subscriptions (registered event cbA idA s)"
    and cfg1: "config sA = config s"
    using subscribe_returned [OF subA] by simp_all
  have m1: "map_of (subscriptions sA) event = Some (old @ [eA])"
    by (simp add: subs1 map_of_registered old eA)
  have subs2: "subscriptions sB = subscriptions (registered event cbB idB sA)"
    and cfg2: "config sB = config s"
    using subscribe_returned [OF subB] cfg1 by simp_all
  have m2: "map_of (subscriptions sB) event = Some (old @ [eA, eB])"
    by (simp add: subs2 map_of_registered m1 eB)
  have others: "\<forall>(k, subs) \<in> set (subscriptions sB).
             k \<noteq> event \<longrightarrow> (\<forall>x \<in> set subs. sub_id x \<noteq> idA \<and> sub_id x \<noteq> idB)"
  proof (clarify)
    fix k subs x
    assume a: "(k, subs) \<in> set (subscriptions sB)" "k \<noteq> event" "x \<in> set subs"
    then have "(k, subs) \<in> set (subscriptions s)"
      by (auto simp: subs2 subs1 dest!: set_registered_other)
    with fresh a(3) show "sub_id x \<noteq> idA \<and> sub_id x \<noteq> idB" by auto
  qed
  have oldfresh: "\<forall>y \<in> set old. sub_id y \<noteq> idA \<and> sub_id y \<noteq> idB"
  proof (cases "map_of (subscriptions s) event")
    case None
    then show ?thesis by (simp add: old)
  next
    case (Some l)
    then have "(event, l) \<in> set (subscriptions s)" by (rule map_of_SomeD)
    with fresh Some show ?thesis by (auto simp: old)
  qed
  have o1: "\<forall>(k, l) \<in> set (subscriptions sB). k \<noteq> event \<longrightarrow> (\<forall>y \<in> set l. sub_id y \<noteq> sub_id eA)"
    using others by (fastforce simp: eA)
  have o2: "\<forall>(k, l) \<in> set (subscriptions sB). k \<noteq> event \<longrightarrow> (\<forall>y \<in> set l. sub_id y \<noteq> sub_id eB)"
    using others by (fastforce simp: eB)
  have p1: "\<forall>y \<in> set old. sub_id y \<noteq> sub_id eA"
    using oldfresh by (simp add: eA)
  have p2: "\<forall>y \<in> set (old @ [eA]). sub_id y \<noteq> sub_id eB"
    using oldfresh neq by (auto simp: eA eB)
  have m2a: "map_of (subscriptions sB) event = Some (old @ eA # [eB])"
    using m2 by simp
  have m2b: "map_of (subscriptions sB) event = Some ((old @ [eA]) @ eB # [])"
    using m2 by simp
  have "unsubscribe (sub_id eA) sB
            = (Inr (), sB\<lparr>subscriptions := AList.update event (old @ [eB]) (subscriptions sB)\<rparr>)"
    using m2a p1 _ o1 by (rule unsubscribe_one_of_several) simp
  then have un1: "unsubscribe idA sB
            = (Inr (), sB\<lparr>subscriptions := AList.update event (old @ [eB]) (subscriptions sB)\<rparr>)"
    by (simp add: eA)
  have "unsubscribe (sub_id eB) sB
            = (Inr (), sB\<lparr>subscriptions := AList.update event ((old @ [eA]) @ []) (subscriptions sB)\<rparr>)"
    using m2b p2 _ o2 by (rule unsubscribe_one_of_several) simp
  then have un2: "unsubscribe idB sB
            = (Inr (), sB\<lparr>subscriptions := AList.update event (old @ [eA]) (subscriptions sB)\<rparr>)"
    by (simp add: eB)
  have deliver: "map inv_callback
                 (invoked (handleMessage extractMessageType getPayload
                    (sB\<lparr>subscriptions := AList.update ''tx'' (old @ [e]) (subscriptions sB)\<rparr>) message))
                = [callback (hd (old @ [e]))]"
    if "split CHR '' '' message = fs" "length fs = 13" "fs ! 0 = ''tx''"
       "extractMessageType (fs ! 12) = Some mt" "startsWith (fs ! 12) (prefix (config s))"
    for e
  proof -
    obtain x xs where c: "old @ [e] = x # xs" by (cases "old @ [e]") auto
    have "handleMessage extractMessageType getPayload
            (sB\<lparr>subscriptions := AList.update ''tx'' (old @ [e]) (subscriptions sB)\<rparr>) message =
          Inr [\<lparr>inv_callback = callback x, inv_event = Some ''tx'',
                inv_payload = buildPayload (getPayload (Some (fs ! 8))) mt fs\<rparr>]"
      using that by (intro handleMessage_match) (simp_all add: update_conv' c cfg2)
    then show ?thesis by (simp add: invoked_def c)
  qed
  show ?thesis
    using m2 others un1 un2 deliver
    by (auto simp del: hd_append2 hd_append)
qed

subsection \<open>Unfolding on concrete inputs\<close>

lemmas js_defs = index_def toString_def startsWith_def parseInt_def isWhiteSpace_def isDigit_def
  digitValue_def decimalValue_def getProp_def objectPrototypeNames_def objectKeys_def
  isArrayIndex_def Let_def

lemmas service_defs = new_ZmqService_def unableToConnect_def connect_def disconnect_def
  internalAddEventCallback_def subscribe_def unsubscribe_def splice1_def removeAt_def
  newHandle_def openSockets_def performAll_def

lemmas handler_defs = buildPayload_def sendEvent_def handleMessage_def invoked_def

lemmas example_defs = exampleConfig_def exampleClassify_def examplePayload_def exampleService_def
  exampleTwoEvents_def exampleThreeOnTx_def

lemmas process_defs = uuid_v4_def new_process_def subscribeCall_def unsubscribeCall_def serveAll_def

text \<open>The sample states are reached by subscribe calls on a new service.\<close>

lemma exampleService_reached:
  "exampleService = performAll [Subscribe ''tx'' 1 ''id-1'' OpenOk] (new_ZmqService exampleConfig)"
  by (simp add: js_defs service_defs example_defs)

lemma exampleTwoEvents_reached:
  "exampleTwoEvents =
     performAll [Subscribe ''tx'' 1 ''id-1'' OpenOk, Subscribe ''block'' 2 ''id-2'' OpenOk]
       (new_ZmqService exampleConfig)"
  by (simp add: js_defs service_defs example_defs)

lemma exampleThreeOnTx_reached:
  "exampleThreeOnTx =
     performAll [Subscribe ''tx'' 1 ''id-1'' OpenOk, Subscribe ''tx'' 2 ''id-2'' OpenOk,
                 Subscribe ''tx'' 3 ''id-3'' OpenOk]
       (new_ZmqService exampleConfig)"
  by (simp add: js_defs service_defs example_defs)

section \<open>The claims\<close>

text \<open>
  C1. For every sequence of subscribe and unsubscribe calls from the empty registry in
  which every socket open succeeds, after each call (that is, after every prefix
  \<open>take n calls\<close>) the socket handle exists if and only if the registry is non-empty;
  the sockets open in the library are exactly that handle, so at most one is open; and
  \<open>connect\<close> on a service that holds a socket changes nothing.
\<close>

theorem connection_iff_registry_nonempty:
  assumes "\<forall>c \<in> set calls. opensSucceed c"
  shows "let s = performAll (take n calls) (new_ZmqService c) in
           (socket s \<noteq> None \<longleftrightarrow> subscriptions s \<noteq> [])
         \<and> openSockets (zmq s) = (case socket s of None \<Rightarrow> [] | Some h \<Rightarrow> [h])
         \<and> length (openSockets (zmq s)) \<le> 1
         \<and> (socket s \<noteq> None \<longrightarrow> connect oc s = (Inr (), s))"
proof -
  from assms have "\<forall>c \<in> set (take n calls). opensSucceed c"
    by (auto dest: in_set_takeD)
  with consistent_new have "consistent (performAll (take n calls) (new_ZmqService c))"
    by (rule consistent_performAll)
  then show ?thesis
    by (auto simp: consistent_def Let_def connect_def split: option.splits)
qed

theorem connection_iff_registry_nonempty_witness:
  "list_all opensSucceed [Subscribe ''tx'' (1::nat) ''id-1'' OpenOk,
                Subscribe ''block'' 2 ''id-2'' OpenOk, Unsubscribe ''id-1'', Unsubscribe ''id-2'']
   \<and> socket (performAll (take 2 [Subscribe ''tx'' (1::nat) ''id-1'' OpenOk,
                Subscribe ''block'' 2 ''id-2'' OpenOk, Unsubscribe ''id-1'', Unsubscribe ''id-2''])
              (new_ZmqService exampleConfig)) = Some 0
   \<and> map fst (subscriptions (performAll (take 2 [Subscribe ''tx'' (1::nat) ''id-1'' OpenOk,
                Subscribe ''block'' 2 ''id-2'' OpenOk, Unsubscribe ''id-1'', Unsubscribe ''id-2''])
              (new_ZmqService exampleConfig))) = [''tx'', ''block'']
   \<and> openSockets (zmq (performAll (take 2 [Subscribe ''tx'' (1::nat) ''id-1'' OpenOk,
                Subscribe ''block'' 2 ''id-2'' OpenOk, Unsubscribe ''id-1'', Unsubscribe ''id-2''])
              (new_ZmqService exampleConfig))) = [0]
   \<and> socket (performAll (take 4 [Subscribe ''tx'' (1::nat) ''id-1'' OpenOk,
                Subscribe ''block'' 2 ''id-2'' OpenOk, Unsubscribe ''id-1'', Unsubscribe ''id-2''])
              (new_ZmqService exampleConfig)) = None
   \<and> subscriptions (performAll (take 4 [Subscribe ''tx'' (1::nat) ''id-1'' OpenOk,
                Subscribe ''block'' 2 ''id-2'' OpenOk, Unsubscribe ''id-1'', Unsubscribe ''id-2''])
              (new_ZmqService exampleConfig)) = []
   \<and> openSockets (zmq (performAll (take 4 [Subscribe ''tx'' (1::nat) ''id-1'' OpenOk,
                Subscribe ''block'' 2 ''id-2'' OpenOk, Unsubscribe ''id-1'', Unsubscribe ''id-2''])
              (new_ZmqService exampleConfig))) = []"
proof -
  have h: "\<forall>c \<in> set [Subscribe ''tx'' (1::nat) ''id-1'' OpenOk, Subscribe ''block'' 2 ''id-2'' OpenOk,
                 Unsubscribe ''id-1'', Unsubscribe ''id-2'']. opensSucceed c"
    by simp
  show ?thesis
    using h connection_iff_registry_nonempty [OF h, of 2 exampleConfig OpenOk]
      connection_iff_registry_nonempty [OF h, of 4 exampleConfig OpenOk]
    by (simp add: js_defs service_defs example_defs)
qed

text \<open>
  C2. For every raw message of exactly 13 single-space-separated fields whose field 0 is
  \<open>tx\<close> and whose field 12 classifies to a message type and starts with the
  configured prefix, and every registry with at least one subscriber under \<open>tx\<close>,
  \<open>handleMessage\<close> invokes exactly one callback, with event \<open>tx\<close> and a payload
  whose timestamp is \<open>parseInt\<close> of field 5, whose hash is field 1, whose address is
  field 2 and whose tag is field 12.
\<close>

theorem handleMessage_delivers_tx:
  assumes "split CHR '' '' message = fs"
    and "length fs = 13"
    and "fs ! 0 = ''tx''"
    and "extractMessageType (fs ! 12) = Some mt"
    and "startsWith (fs ! 12) (prefix (config s))"
    and "map_of (subscriptions s) ''tx'' = Some subs"
    and "subs \<noteq> []"
  shows "handleMessage extractMessageType getPayload s message =
     Inr [\<lparr>inv_callback = callback (hd subs), inv_event = Some ''tx'',
           inv_payload =
             \<lparr>data = getPayload (Some (fs ! 8)), messageType = mt,
              tag = Some (fs ! 12), hash = Some (fs ! 1), address = Some (fs ! 2),
              timestamp = parseInt (fs ! 5)\<rparr>\<rparr>]"
proof -
  from assms(2) have ix: "\<And>i. i < 13 \<Longrightarrow> index fs i = Some (fs ! i)"
    by (simp add: index_def)
  from assms(7) obtain x xs where subs: "subs = x # xs" by (cases subs) auto
  show ?thesis
    using assms(1,3,4,5,6) subs
    by (simp add: handleMessage_tx ix buildPayload_def toString_def)
qed

theorem handleMessage_delivers_tx_witness:
  "split CHR '' '' ''tx HASH9 ADDR9 0 0 1573212907 0 0 BUNDLE9 0 0 0 SEMARKETA''
     = [''tx'', ''HASH9'', ''ADDR9'', ''0'', ''0'', ''1573212907'', ''0'', ''0'', ''BUNDLE9'',
        ''0'', ''0'', ''0'', ''SEMARKETA'']
   \<and> exampleClassify ''SEMARKETA'' = Some ''callForProposal''
   \<and> startsWith ''SEMARKETA'' (prefix (config exampleService))
   \<and> map_of (subscriptions exampleService) ''tx'' = Some [\<lparr>sub_id = ''id-1'', callback = 1\<rparr>]
   \<and> handleMessage exampleClassify examplePayload exampleService
        ''tx HASH9 ADDR9 0 0 1573212907 0 0 BUNDLE9 0 0 0 SEMARKETA''
      = Inr [\<lparr>inv_callback = 1, inv_event = Some ''tx'',
              inv_payload =
                \<lparr>data = ''payload of BUNDLE9'', messageType = ''callForProposal'',
                 tag = Some ''SEMARKETA'', hash = Some ''HASH9'', address = Some ''ADDR9'',
                 timestamp = Num 1573212907\<rparr>\<rparr>]"
proof -
  have sp: "split CHR '' '' ''tx HASH9 ADDR9 0 0 1573212907 0 0 BUNDLE9 0 0 0 SEMARKETA''
     = [''tx'', ''HASH9'', ''ADDR9'', ''0'', ''0'', ''1573212907'', ''0'', ''0'', ''BUNDLE9'',
        ''0'', ''0'', ''0'', ''SEMARKETA'']"
    by simp
  have cl: "exampleClassify ''SEMARKETA'' = Some ''callForProposal''"
    by (simp add: exampleClassify_def)
  have pf: "startsWith ''SEMARKETA'' (prefix (config exampleService))"
    by (simp add: startsWith_def example_defs)
  have su: "map_of (subscriptions exampleService) ''tx'' = Some [\<lparr>sub_id = ''id-1'', callback = 1\<rparr>]"
    by (simp add: exampleService_def)
  have ts: "parseInt ''1573212907'' = Num 1573212907"
    by (simp add: js_defs)
  show ?thesis
    using handleMessage_delivers_tx [OF sp, of exampleClassify "''callForProposal''"
        exampleService "[\<lparr>sub_id = ''id-1'', callback = 1\<rparr>]" examplePayload] sp cl pf su ts
    by (simp add: examplePayload_def toString_def)
qed

text \<open>
  C3, as stated: a malformed message (fewer than 13 fields, or a field 5 that is no
  base-10 integer) makes \<open>handleMessage\<close> fail with a reported error, and no callback
  ever receives a payload with a \<open>NaN\<close> timestamp. The code does not validate: on a
  13-field message whose field 5 is \<open>soon\<close> the callback is invoked and the payload
  carries \<open>NaN\<close>.
\<close>

theorem handleMessage_unparseable_timestamp_counterexample:
  "parseInt ''soon'' = NaN
   \<and> handleMessage exampleClassify examplePayload exampleService
        ''tx HASH9 ADDR9 0 0 soon 0 0 BUNDLE9 0 0 0 SEMARKETA''
      = Inr [\<lparr>inv_callback = 1, inv_event = Some ''tx'',
              inv_payload =
                \<lparr>data = ''payload of BUNDLE9'', messageType = ''callForProposal'',
                 tag = Some ''SEMARKETA'', hash = Some ''HASH9'', address = Some ''ADDR9'',
                 timestamp = NaN\<rparr>\<rparr>]"
  by (simp add: js_defs handler_defs example_defs)

text \<open>
  C3, amended: for every raw message with fewer than 13 single-space-separated fields,
  \<open>handleMessage\<close> invokes no callback: it raises a TypeError when field 0 is \<open>tx\<close>
  and the registry has the key \<open>tx\<close>, and returns without error otherwise. For every
  message, a callback that is invoked receives a message of at least 13 fields, with
  fields 12, 1 and 2 as tag, hash and address and with the value of \<open>parseInt\<close> on
  field 5 as timestamp, whatever that value is (no validation).
\<close>

theorem handleMessage_malformed:
  "let fs = split CHR '' '' message;
       r = handleMessage extractMessageType getPayload s message
   in (length fs < 13 \<longrightarrow>
         invoked r = [] \<and>
         r = (if index fs 0 = Some ''tx'' \<and> map_of (subscriptions s) ''tx'' \<noteq> None
              then Inl TypeError else Inr []))
    \<and> (case invoked r of
          [] \<Rightarrow> True
        | i # rest \<Rightarrow>
            13 \<le> length fs
          \<and> tag (inv_payload i) = Some (fs ! 12)
          \<and> hash (inv_payload i) = Some (fs ! 1)
          \<and> address (inv_payload i) = Some (fs ! 2)
          \<and> timestamp (inv_payload i) = parseInt (fs ! 5))"
proof (cases rule: handleMessage_cases
    [where emt = extractMessageType and gp = getPayload and s = s and message = message])
  case dropped
  then show ?thesis by (auto simp: invoked_def Let_def index_Some index_None)
next
  case raised
  then show ?thesis by (auto simp: invoked_def Let_def)
next
  case (sent x xs t mt)
  from sent(3) have len: "13 \<le> length (split CHR '' '' message)"
    and t: "split CHR '' '' message ! 12 = t"
    by (auto simp: index_Some)
  from len have "index (split CHR '' '' message) 1 = Some (split CHR '' '' message ! 1)"
    and "index (split CHR '' '' message) 2 = Some (split CHR '' '' message ! 2)"
    and "index (split CHR '' '' message) 5 = Some (split CHR '' '' message ! 5)"
    by (simp_all add: index_def)
  with sent len t show ?thesis
    by (simp add: invoked_def Let_def buildPayload_def toString_def)
qed

theorem handleMessage_malformed_witness:
  "length (split CHR '' '' ''tx HASH9 ADDR9'') = 3
   \<and> handleMessage exampleClassify examplePayload exampleService ''tx HASH9 ADDR9''
       = Inl TypeError
   \<and> length (split CHR '' '' ''block HASH9 ADDR9'') = 3
   \<and> handleMessage exampleClassify examplePayload exampleService ''block HASH9 ADDR9''
       = Inr []"
  using handleMessage_malformed [where extractMessageType = exampleClassify
      and getPayload = examplePayload and s = exampleService and message = "''tx HASH9 ADDR9''"]
    handleMessage_malformed [where extractMessageType = exampleClassify
      and getPayload = examplePayload and s = exampleService and message = "''block HASH9 ADDR9''"]
  by (simp add: Let_def index_def exampleService_def)

text \<open>
  C4. For every subscribe call during which opening the socket fails (the service holds
  no socket, the event name resolves to no inherited member, and \<open>zmq.socket\<close> or
  \<open>socket.connect\<close> throws), \<open>subscribe\<close> throws an Error whose message is
  \<open>Unable to connect to ZMQ.\<close> followed by the cause, and the registry is already
  mutated: the event's list, created if the key was fresh, ends with the new entry.
\<close>

theorem subscribe_open_failure:
  assumes "socket s = None"
    and "oc = SocketThrows err \<or> oc = ConnectThrows err"
    and "getProp (subscriptions s) event \<noteq> Inherited"
  shows "fst (subscribe event cb uuid oc s)
           = Inl (Error (''Unable to connect to ZMQ.'' @ [CHR 0x0A] @ err))
       \<and> map_of (subscriptions (snd (subscribe event cb uuid oc s))) =
           (map_of (subscriptions s))
             (event \<mapsto> (case map_of (subscriptions s) event of None \<Rightarrow> [] | Some subs \<Rightarrow> subs)
                         @ [\<lparr>sub_id = uuid, callback = cb\<rparr>])"
proof -
  have sock: "socket (registered event cb uuid s) = None"
    using assms(1) by (simp add: registered_def split: option.splits)
  have "fst (connect oc (registered event cb uuid s)) = Inl (unableToConnect err)"
    using sock assms(2) by (rule connect_fails)
  moreover have "subscriptions (snd (connect oc (registered event cb uuid s)))
      = subscriptions (registered event cb uuid s)"
    by simp
  ultimately show ?thesis
    using assms(3)
    by (cases "connect oc (registered event cb uuid s)")
       (simp add: subscribe_def internalAddEventCallback_registered map_of_registered
          unableToConnect_def)
qed

theorem subscribe_open_failure_witness:
  "socket (new_ZmqService exampleConfig :: nat zmq_service) = None
   \<and> getProp (subscriptions (new_ZmqService exampleConfig :: nat zmq_service)) ''tx'' = Undefined
   \<and> subscribe ''tx'' (1::nat) ''id-1'' (SocketThrows ''Error: Too many open files'')
        (new_ZmqService exampleConfig)
      = (Inl (Error (''Unable to connect to ZMQ.'' @ [CHR 0x0A] @ ''Error: Too many open files'')),
         \<lparr>config = exampleConfig, socket = None,
          subscriptions = [(''tx'', [\<lparr>sub_id = ''id-1'', callback = 1\<rparr>])], zmq = []\<rparr>)
   \<and> subscribe ''tx'' (1::nat) ''id-1'' (ConnectThrows ''Error: Invalid argument'')
        (new_ZmqService exampleConfig)
      = (Inl (Error (''Unable to connect to ZMQ.'' @ [CHR 0x0A] @ ''Error: Invalid argument'')),
         \<lparr>config = exampleConfig, socket = Some 0,
          subscriptions = [(''tx'', [\<lparr>sub_id = ''id-1'', callback = 1\<rparr>])], zmq = [ZmqSocket 0]\<rparr>)"
proof -
  have h1: "socket (new_ZmqService exampleConfig :: nat zmq_service) = None"
    by (simp add: new_ZmqService_def)
  have h3: "getProp (subscriptions (new_ZmqService exampleConfig :: nat zmq_service)) ''tx'' \<noteq> Inherited"
    by (simp add: new_ZmqService_def js_defs)
  have h2: "SocketThrows ''Error: Too many open files'' = SocketThrows ''Error: Too many open files''
      \<or> SocketThrows ''Error: Too many open files'' = ConnectThrows ''Error: Too many open files''"
    by simp
  have h2': "ConnectThrows ''Error: Invalid argument'' = SocketThrows ''Error: Invalid argument''
      \<or> ConnectThrows ''Error: Invalid argument'' = ConnectThrows ''Error: Invalid argument''"
    by simp
  show ?thesis
    using subscribe_open_failure [OF h1 h2 h3, of 1 "''id-1''"]
      subscribe_open_failure [OF h1 h2' h3, of 1 "''id-1''"]
    by (simp add: js_defs service_defs)
qed


text \<open>
  C6. For every raw message, \<open>handleMessage\<close> invokes at most one callback, and it is
  the callback of the head of the subscriber list under \<open>tx\<close>: the other subscribers
  of the event are not served, however many are registered.
\<close>

theorem handleMessage_first_subscriber_only:
  "(case invoked (handleMessage extractMessageType getPayload s message) of
      [] \<Rightarrow> True
    | i # rest \<Rightarrow>
        rest = [] \<and> inv_event i = Some ''tx'' \<and>
        (\<exists>x xs. map_of (subscriptions s) ''tx'' = Some (x # xs) \<and> inv_callback i = callback x))"
proof (cases rule: handleMessage_cases
    [where emt = extractMessageType and gp = getPayload and s = s and message = message])
  case dropped
  then show ?thesis by (simp add: invoked_def)
next
  case raised
  then show ?thesis by (simp add: invoked_def)
next
  case (sent x xs t mt)
  then show ?thesis by (simp add: invoked_def)
qed

theorem handleMessage_first_subscriber_only_witness:
  "map callback (the (map_of (subscriptions exampleThreeOnTx) ''tx'')) = [1, 2, 3]
   \<and> map inv_callback
        (invoked (handleMessage exampleClassify examplePayload exampleThreeOnTx
           ''tx HASH9 ADDR9 0 0 1573212907 0 0 BUNDLE9 0 0 0 SEMARKETA'')) = [1]"
  using handleMessage_first_subscriber_only [where extractMessageType = exampleClassify
      and getPayload = examplePayload and s = exampleThreeOnTx
      and message = "''tx HASH9 ADDR9 0 0 1573212907 0 0 BUNDLE9 0 0 0 SEMARKETA''"]
  by (simp add: js_defs handler_defs example_defs)

text \<open>
  C7. For every raw message and every registry, \<open>handleMessage\<close> invokes a callback
  only if field 0 is \<open>tx\<close>, a subscriber is registered under \<open>tx\<close>, field 12
  classifies to a message type and field 12 starts with the configured prefix. A
  13-field message whose tag does not start with the prefix, or whose field 0 is
  \<open>block\<close>, yields no invocation and no error.
\<close>

theorem handleMessage_zero_callbacks_unless:
  "let fs = split CHR '' '' message;
       r = handleMessage extractMessageType getPayload s message
   in (invoked r \<noteq> [] \<longrightarrow>
            index fs 0 = Some ''tx''
          \<and> (\<exists>x xs. map_of (subscriptions s) ''tx'' = Some (x # xs))
          \<and> (\<exists>t. index fs 12 = Some t \<and> extractMessageType t \<noteq> None
                 \<and> startsWith t (prefix (config s))))
       \<and> (length fs = 13 \<and> (\<not> startsWith (fs ! 12) (prefix (config s)) \<or> fs ! 0 = ''block'')
            \<longrightarrow> r = Inr [])"
proof (cases rule: handleMessage_cases
    [where emt = extractMessageType and gp = getPayload and s = s and message = message])
  case dropped
  then show ?thesis by (simp add: invoked_def Let_def)
next
  case raised
  then show ?thesis by (auto simp: invoked_def Let_def index_Some index_None)
next
  case (sent x xs t mt)
  then show ?thesis by (auto simp: invoked_def Let_def index_Some)
qed

theorem handleMessage_zero_callbacks_unless_witness:
  "invoked (handleMessage exampleClassify examplePayload exampleTwoEvents
      ''tx HASH9 ADDR9 0 0 1573212907 0 0 BUNDLE9 0 0 0 SEMARKETA'') \<noteq> []
   \<and> exampleClassify ''OTHERTAGA'' = Some ''callForProposal''
   \<and> handleMessage exampleClassify examplePayload exampleTwoEvents
      ''tx HASH9 ADDR9 0 0 1573212907 0 0 BUNDLE9 0 0 0 OTHERTAGA'' = Inr []
   \<and> handleMessage exampleClassify examplePayload exampleTwoEvents
      ''block HASH9 ADDR9 0 0 1573212907 0 0 BUNDLE9 0 0 0 SEMARKETA'' = Inr []"
  using handleMessage_zero_callbacks_unless [where extractMessageType = exampleClassify
      and getPayload = examplePayload and s = exampleTwoEvents
      and message = "''tx HASH9 ADDR9 0 0 1573212907 0 0 BUNDLE9 0 0 0 SEMARKETA''"]
    handleMessage_zero_callbacks_unless [where extractMessageType = exampleClassify
      and getPayload = examplePayload and s = exampleTwoEvents
      and message = "''tx HASH9 ADDR9 0 0 1573212907 0 0 BUNDLE9 0 0 0 OTHERTAGA''"]
    handleMessage_zero_callbacks_unless [where extractMessageType = exampleClassify
      and getPayload = examplePayload and s = exampleTwoEvents
      and message = "''block HASH9 ADDR9 0 0 1573212907 0 0 BUNDLE9 0 0 0 SEMARKETA''"]
  by (simp add: js_defs handler_defs example_defs)

text \<open>
  C8. For every state and every subscription id that occurs in no event's subscriber
  list, \<open>unsubscribe(id)\<close> returns without an error and leaves the registry, the socket
  handle and the calls made on the library unchanged.
\<close>

theorem unsubscribe_unknown_id_noop:
  assumes "\<forall>(k, subs) \<in> set (subscriptions s). \<forall>x \<in> set subs. sub_id x \<noteq> subscriptionId"
  shows "unsubscribe subscriptionId s = (Inr (), s)"
  unfolding unsubscribe_def
  using assms by (intro unsubscribeLoop_absent) (simp_all add: set_objectKeys)

theorem unsubscribe_unknown_id_noop_witness:
  "concat (map (map sub_id \<circ> snd) (subscriptions exampleTwoEvents)) = [''id-1'', ''id-2'']
   \<and> unsubscribe ''id-3'' exampleTwoEvents = (Inr (), exampleTwoEvents)"
proof -
  have h: "\<forall>(k, subs) \<in> set (subscriptions exampleTwoEvents). \<forall>x \<in> set subs. sub_id x \<noteq> ''id-3''"
    by (simp add: exampleTwoEvents_def)
  have "concat (map (map sub_id \<circ> snd) (subscriptions exampleTwoEvents)) = [''id-1'', ''id-2'']"
    by (simp add: exampleTwoEvents_def)
  with unsubscribe_unknown_id_noop [OF h] show ?thesis by simp
qed

text \<open>
  C9, as stated: after any two subscribe calls on one event name, unsubscribing one of
  the two leaves the other registered so that matching messages are delivered to it.
  With an earlier subscriber on \<open>tx\<close>, the remaining one of the two stays registered
  but is not served: the message goes to the earlier subscriber alone.
\<close>

theorem remaining_subscriber_not_served_counterexample:
  "map_of (subscriptions
      (snd (unsubscribe ''id-2''
         (snd (subscribe ''tx'' 3 ''id-3'' OpenOk
            (snd (subscribe ''tx'' 2 ''id-2'' OpenOk exampleService))))))) ''tx''
     = Some [\<lparr>sub_id = ''id-1'', callback = 1\<rparr>, \<lparr>sub_id = ''id-3'', callback = 3\<rparr>]
   \<and> map inv_callback
        (invoked (handleMessage exampleClassify examplePayload
           (snd (unsubscribe ''id-2''
              (snd (subscribe ''tx'' 3 ''id-3'' OpenOk
                 (snd (subscribe ''tx'' 2 ''id-2'' OpenOk exampleService))))))
           ''tx HASH9 ADDR9 0 0 1573212907 0 0 BUNDLE9 0 0 0 SEMARKETA''))
     = [1]"
  by (simp add: js_defs service_defs handler_defs example_defs)

text \<open>
  C9, amended: in every state reached from a new service by subscribe and unsubscribe
  calls, for every two successive subscribe calls on the same event name that both
  return an id, the two returned ids are distinct (all ids returned in the lifetime of
  the registry are pairwise distinct) and occur nowhere in the registry before, both
  entries are appended to that event's list and the ids occur under no other event, and
  unsubscribing either one returns normally and leaves the other's entry in place. A
  matching \<open>tx\<close> message is then delivered to the head of the event's list, which is the
  remaining subscriber when no earlier subscription of the event is still registered.
\<close>

theorem two_subscriptions_same_event:
  assumes reach: "p = serveAll requests (new_process c)"
    and subA: "subscribeCall event cbA ocA p = (Inr idA, pA)"
    and subB: "subscribeCall event cbB ocB pA = (Inr idB, pB)"
    and old: "old = (case map_of (subscriptions (service p)) event of None \<Rightarrow> [] | Some subs \<Rightarrow> subs)"
    and eA: "eA = \<lparr>sub_id = idA, callback = cbA\<rparr>"
    and eB: "eB = \<lparr>sub_id = idB, callback = cbB\<rparr>"
  shows "idA \<noteq> idB
       \<and> distinct (returnedIds
            (requests @ [SubscribeRequest event cbA ocA, SubscribeRequest event cbB ocB] @ later)
            (new_process c))
       \<and> idA \<notin> registryIds (subscriptions (service p))
       \<and> idB \<notin> registryIds (subscriptions (service p))
       \<and> map_of (subscriptions (service pB)) event = Some (old @ [eA, eB])
       \<and> (\<forall>(k, subs) \<in> set (subscriptions (service pB)).
             k \<noteq> event \<longrightarrow> (\<forall>x \<in> set subs. sub_id x \<noteq> idA \<and> sub_id x \<noteq> idB))
       \<and> unsubscribe idA (service pB)
            = (Inr (), (service pB)\<lparr>subscriptions :=
                          AList.update event (old @ [eB]) (subscriptions (service pB))\<rparr>)
       \<and> unsubscribe idB (service pB)
            = (Inr (), (service pB)\<lparr>subscriptions :=
                          AList.update event (old @ [eA]) (subscriptions (service pB))\<rparr>)
       \<and> (event = ''tx'' \<and> split CHR '' '' message = fs \<and> length fs = 13 \<and> fs ! 0 = ''tx''
            \<and> extractMessageType (fs ! 12) = Some mt
            \<and> startsWith (fs ! 12) (prefix (config (service p)))
          \<longrightarrow> map inv_callback
                 (invoked (handleMessage extractMessageType getPayload
                    (snd (unsubscribe idA (service pB))) message))
                = [callback (hd (old @ [eB]))]
            \<and> map inv_callback
                 (invoked (handleMessage extractMessageType getPayload
                    (snd (unsubscribe idB (service pB))) message))
                = [callback (hd (old @ [eA]))])"
proof -
  have drawn: "idsDrawn p"
    unfolding reach using idsDrawn_new by (rule idsDrawn_serveAll)
  have a: "idA = uuid_v4 (uuidCalls p)" and na: "uuidCalls pA = Suc (uuidCalls p)"
    and sa: "subscribe event cbA idA ocA (service p) = (Inr idA, service pA)"
    using subscribeCall_returned [OF subA] by simp_all
  have b: "idB = uuid_v4 (uuidCalls pA)"
    and sb: "subscribe event cbB idB ocB (service pA) = (Inr idB, service pB)"
    using subscribeCall_returned [OF subB] by simp_all
  from a b na have neq: "idA \<noteq> idB" by simp
  from drawn a b na have nA: "idA \<notin> registryIds (subscriptions (service p))"
    and nB: "idB \<notin> registryIds (subscriptions (service p))"
    by (auto simp: idsDrawn_def)
  then have fresh: "\<forall>(k, subs) \<in> set (subscriptions (service p)).
      \<forall>x \<in> set subs. sub_id x \<noteq> idA \<and> sub_id x \<noteq> idB"
    by (fastforce simp: registryIds_def)
  have dist: "distinct (returnedIds
            (requests @ [SubscribeRequest event cbA ocA, SubscribeRequest event cbB ocB] @ later)
            (new_process c))"
    using returnedIds_from by blast
  note rest = two_subscriptions_fresh [OF sa sb neq fresh old eA eB,
      where message = message and fs = fs and extractMessageType = extractMessageType
        and mt = mt and getPayload = getPayload]
  from neq dist nA nB rest show ?thesis
    by blast
qed

theorem two_subscriptions_same_event_witness:
  "subscribeCall ''tx'' (1::nat) OpenOk (new_process exampleConfig)
     = (Inr ''uuid-'', snd (subscribeCall ''tx'' 1 OpenOk (new_process exampleConfig)))
   \<and> subscribeCall ''tx'' 2 OpenOk (snd (subscribeCall ''tx'' (1::nat) OpenOk (new_process exampleConfig)))
     = (Inr ''uuid-I'',
        snd (subscribeCall ''tx'' 2 OpenOk
               (snd (subscribeCall ''tx'' (1::nat) OpenOk (new_process exampleConfig)))))
   \<and> map_of (subscriptions (service
         (snd (subscribeCall ''tx'' 2 OpenOk
                 (snd (subscribeCall ''tx'' (1::nat) OpenOk (new_process exampleConfig))))))) ''tx''
     = Some [\<lparr>sub_id = ''uuid-'', callback = 1\<rparr>, \<lparr>sub_id = ''uuid-I'', callback = 2\<rparr>]
   \<and> map inv_callback
        (invoked (handleMessage exampleClassify examplePayload
           (snd (unsubscribe ''uuid-''
              (service (snd (subscribeCall ''tx'' 2 OpenOk
                 (snd (subscribeCall ''tx'' (1::nat) OpenOk (new_process exampleConfig))))))))
           ''tx HASH9 ADDR9 0 0 1573212907 0 0 BUNDLE9 0 0 0 SEMARKETA''))
     = [2]
   \<and> map inv_callback
        (invoked (handleMessage exampleClassify examplePayload
           (snd (unsubscribe ''uuid-I''
              (service (snd (subscribeCall ''tx'' 2 OpenOk
                 (snd (subscribeCall ''tx'' (1::nat) OpenOk (new_process exampleConfig))))))))
           ''tx HASH9 ADDR9 0 0 1573212907 0 0 BUNDLE9 0 0 0 SEMARKETA''))
     = [1]"
proof -
  have reach: "(new_process exampleConfig :: nat process) = serveAll [] (new_process exampleConfig)"
    by (simp add: serveAll_def)
  have subA: "subscribeCall ''tx'' (1::nat) OpenOk (new_process exampleConfig)
     = (Inr ''uuid-'', snd (subscribeCall ''tx'' 1 OpenOk (new_process exampleConfig)))"
    by (simp add: process_defs js_defs service_defs)
  have subB: "subscribeCall ''tx'' 2 OpenOk (snd (subscribeCall ''tx'' (1::nat) OpenOk (new_process exampleConfig)))
     = (Inr ''uuid-I'',
        snd (subscribeCall ''tx'' 2 OpenOk
               (snd (subscribeCall ''tx'' (1::nat) OpenOk (new_process exampleConfig)))))"
    by (simp add: process_defs js_defs service_defs)
  have sp: "split CHR '' '' ''tx HASH9 ADDR9 0 0 1573212907 0 0 BUNDLE9 0 0 0 SEMARKETA''
     = [''tx'', ''HASH9'', ''ADDR9'', ''0'', ''0'', ''1573212907'', ''0'', ''0'', ''BUNDLE9'',
        ''0'', ''0'', ''0'', ''SEMARKETA'']"
    by simp
  show ?thesis
    using two_subscriptions_same_event [OF reach subA subB refl refl refl,
        where extractMessageType = exampleClassify and getPayload = examplePayload
          and mt = "''callForProposal''"
          and fs = "[''tx'', ''HASH9'', ''ADDR9'', ''0'', ''0'', ''1573212907'', ''0'', ''0'',
                     ''BUNDLE9'', ''0'', ''0'', ''0'', ''SEMARKETA'']"
          and message = "''tx HASH9 ADDR9 0 0 1573212907 0 0 BUNDLE9 0 0 0 SEMARKETA''"] sp subA subB
    by (simp add: process_defs js_defs service_defs handler_defs example_defs)
qed

text \<open>
  C10. For every raw message and every registry, a callback that \<open>handleMessage\<close>
  invokes is one registered under the name \<open>tx\<close> and is called with event \<open>tx\<close>;
  subscribers under any other name have no part in it: removing every other key from
  the registry leaves the outcome of the handler unchanged.
\<close>

theorem handleMessage_only_tx_subscribers:
  "(case invoked (handleMessage extractMessageType getPayload s message) of
      [] \<Rightarrow> True
    | i # rest \<Rightarrow>
        inv_event i = Some ''tx'' \<and>
        (\<exists>subs. map_of (subscriptions s) ''tx'' = Some subs \<and> inv_callback i \<in> callback ` set subs))
   \<and> handleMessage extractMessageType getPayload
        (s\<lparr>subscriptions := filter (\<lambda>(k, subs). k = ''tx'') (subscriptions s)\<rparr>) message
      = handleMessage extractMessageType getPayload s message"
proof
  show "case invoked (handleMessage extractMessageType getPayload s message) of
      [] \<Rightarrow> True
    | i # rest \<Rightarrow>
        inv_event i = Some ''tx'' \<and>
        (\<exists>subs. map_of (subscriptions s) ''tx'' = Some subs \<and> inv_callback i \<in> callback ` set subs)"
  proof (cases rule: handleMessage_cases
    [where emt = extractMessageType and gp = getPayload and s = s and message = message])
    case dropped
    then show ?thesis by (simp add: invoked_def)
  next
    case raised
    then show ?thesis by (simp add: invoked_def)
  next
    case (sent x xs t mt)
    then show ?thesis by (simp add: invoked_def)
  qed
next
  show "handleMessage extractMessageType getPayload
        (s\<lparr>subscriptions := filter (\<lambda>(k, subs). k = ''tx'') (subscriptions s)\<rparr>) message
      = handleMessage extractMessageType getPayload s message"
    by (auto simp: map_of_filter_key handleMessage_tx Let_def split: option.splits list.splits)
qed

theorem handleMessage_only_tx_subscribers_witness:
  "map inv_callback
     (invoked (handleMessage exampleClassify examplePayload exampleTwoEvents
        ''tx HASH9 ADDR9 0 0 1573212907 0 0 BUNDLE9 0 0 0 SEMARKETA'')) = [1]
   \<and> invoked (handleMessage exampleClassify examplePayload exampleTwoEvents
        ''block HASH9 ADDR9 0 0 1573212907 0 0 BUNDLE9 0 0 0 SEMARKETA'') = []
   \<and> invoked (handleMessage exampleClassify examplePayload
        (exampleTwoEvents\<lparr>subscriptions := [(''block'', [\<lparr>sub_id = ''id-2'', callback = 2\<rparr>])]\<rparr>)
        ''tx HASH9 ADDR9 0 0 1573212907 0 0 BUNDLE9 0 0 0 SEMARKETA'') = []"
  using handleMessage_only_tx_subscribers [where extractMessageType = exampleClassify
      and getPayload = examplePayload and s = exampleTwoEvents
      and message = "''tx HASH9 ADDR9 0 0 1573212907 0 0 BUNDLE9 0 0 0 SEMARKETA''"]
  by (simp add: js_defs handler_defs example_defs)

end
